theory Spec2Isabelle
  imports Main "HOL-Library.Word"
begin

unbundle bit_operations_syntax

section \<open>The indexer of ccls (src/indexer.cc)\<close>

subsection \<open>Declaration nodes of the semantic engine\<close>

text \<open>
  The syntactic categories of declaration nodes (\<^verbatim>\<open>Decl::Kind\<close> of the engine). The ones
  the source names in \<^verbatim>\<open>getKind\<close> and \<^verbatim>\<open>getDeclLanguage\<close> come first; \<open>OtherDecl n\<close>
  stands for the engine's remaining categories, which only the \<^verbatim>\<open>default\<close> arms see.
\<close>

datatype (plugins only: code) DeclKind =
    LinkageSpec | Namespace | NamespaceAlias
  | ObjCCategory | ObjCCategoryImpl | ObjCImplementation | ObjCInterface | ObjCProtocol
  | ObjCMethod | ObjCProperty
  | ClassTemplate | FunctionTemplate | TypeAliasTemplate | VarTemplate | TemplateTemplateParm
  | Enum | CXXRecord | Record
  | ClassTemplateSpecialization | ClassTemplatePartialSpecialization
  | TemplateTypeParm | TypeAlias | Typedef | UnresolvedUsingTypename
  | Using | Binding | Field | ObjCIvar | Function | CXXMethod | CXXConstructor
  | CXXConversion | CXXDestructor | NonTypeTemplateParm | VarDecl | Decomposition
  | ImplicitParam | ParmVar | VarTemplateSpecialization | VarTemplatePartialSpecialization
  | EnumConstant | UnresolvedUsingValue | TranslationUnit
  | ObjCAtDefsField | ObjCCompatibleAlias | ObjCPropertyImpl | ObjCTypeParam
  | Friend | FriendTemplate | StaticAssert | UsingDirective | UsingShadow
  | OtherDecl nat

datatype TagKind = TTK_Struct | TTK_Interface | TTK_Union | TTK_Class | TTK_Enum

text \<open>
  The coarse storage kind and the fine-grained symbol kind. Both enumerations are declared
  in headers of the repository that are not under src/; the constructors are the ones the
  source names (\<^verbatim>\<open>Kind::Invalid\<close>, \<^verbatim>\<open>SymbolKind::Struct\<close>, ...), the remaining
  fine-grained kinds are those of the language server protocol.
\<close>

datatype Kind = Invalid | File | Type | Func | Var

datatype (plugins only: code) SymbolKind =
    Unknown | SK_File | Module | SK_Namespace | Package | Class | Method | Property
  | SK_Field | Constructor | SK_Enum | Interface | SK_Function | Variable | Constant
  | String | Number | Boolean | Array | Object | Key | Null | EnumMember | Struct
  | Event | Operator | TypeParameter | SK_TypeAlias | Parameter | StaticMethod | Macro

text \<open>
  What the indexer reads from one declaration node. \<open>DeclAttrs\<close> holds the attributes
  that are values, \<open>Decl\<close> adds the attributes that are declaration nodes themselves.
  \<^item> \<open>getCanonicalDecl\<close> is the identity of the canonical redeclaration (the pointer the
    source uses as the key of \<^verbatim>\<open>Decl2Info\<close>);
  \<^item> \<open>generateUSRForDecl\<close> is the engine's unique textual reference;
  \<^item> \<open>namedDecl\<close> is None when the node is not a \<^verbatim>\<open>NamedDecl\<close>, else the results of
    \<^verbatim>\<open>getNameAsString\<close> and \<^verbatim>\<open>printQualifiedName\<close>;
  \<^item> \<open>getType\<close> summarises the node's type as the source inspects it: a null type, a
    builtin type with its kind, or any other type with the declaration that
    \<^verbatim>\<open>getTypeDecl\<close> finds for it and the flag \<^verbatim>\<open>getTypeDecl\<close> sets for a template
    specialization type.
\<close>

record DeclAttrs =
  getDeclKind :: DeclKind
  getCanonicalDecl :: nat
  generateUSRForDecl :: string
  namedDecl :: "(string \<times> string) option"
  hasLinkage :: bool
  getTagKind :: TagKind
  isStatic :: bool
  isFirstDecl :: bool
  isAnonymousNamespace :: bool
  getTypeAsWritten :: bool
  hasDefinition :: bool
  getTypedefNameForAnonDecl :: "string option"
  getInitVal :: int

datatype Decl = Decl
    (attrs: DeclAttrs)
    (getRedeclContext: "Decl option")
    (getParent: "Decl option")
    (getSpecializedTemplateOrPartial: "Decl option")
    (getSpecializedTemplate: "Decl option")
    (getInstantiatedFromMember: "Decl option")
    (getNamespace: "Decl option")
    (getType: TypeRef)
    (cxx_bases: "TypeRef list")
    (getOverriddenMethods: "Decl list")
and TypeRef =
    NullType
  | BuiltinType "64 word"
  | OtherType (getTypeDecl: "Decl option") (specialization: bool)

abbreviation getKindOf :: "Decl \<Rightarrow> DeclKind" where
  "getKindOf D \<equiv> getDeclKind (attrs D)"

subsection \<open>The classifier\<close>

text \<open>
  \<^verbatim>\<open>Kind getKind(const Decl *D, SymbolKind &kind)\<close>: the second argument is the value
  the caller's variable holds at the call, the second result the value it holds after
  it. The arms that return without assigning leave it as it was.
\<close>

definition getKind :: "Decl \<Rightarrow> SymbolKind \<Rightarrow> Kind \<times> SymbolKind" where
  "getKind D kind =
    (case getKindOf D of
       LinkageSpec \<Rightarrow> (Invalid, kind)
     | Namespace \<Rightarrow> (Type, SK_Namespace)
     | NamespaceAlias \<Rightarrow> (Type, SK_Namespace)
     | ObjCCategory \<Rightarrow> (Type, Interface)
     | ObjCCategoryImpl \<Rightarrow> (Type, Interface)
     | ObjCImplementation \<Rightarrow> (Type, Interface)
     | ObjCInterface \<Rightarrow> (Type, Interface)
     | ObjCProtocol \<Rightarrow> (Type, Interface)
     | ObjCMethod \<Rightarrow> (Func, Method)
     | ObjCProperty \<Rightarrow> (Type, Property)
     | ClassTemplate \<Rightarrow> (Type, Class)
     | FunctionTemplate \<Rightarrow> (Func, SK_Function)
     | TypeAliasTemplate \<Rightarrow> (Type, SK_TypeAlias)
     | VarTemplate \<Rightarrow> (Var, Variable)
     | TemplateTemplateParm \<Rightarrow> (Type, TypeParameter)
     | Enum \<Rightarrow> (Type, SK_Enum)
     | CXXRecord \<Rightarrow> (Type, if getTagKind (attrs D) = TTK_Struct then Struct else Class)
     | Record \<Rightarrow> (Type, if getTagKind (attrs D) = TTK_Struct then Struct else Class)
     | ClassTemplateSpecialization \<Rightarrow> (Type, Class)
     | ClassTemplatePartialSpecialization \<Rightarrow> (Type, Class)
     | TemplateTypeParm \<Rightarrow> (Type, TypeParameter)
     | TypeAlias \<Rightarrow> (Type, SK_TypeAlias)
     | Typedef \<Rightarrow> (Type, SK_TypeAlias)
     | UnresolvedUsingTypename \<Rightarrow> (Type, SK_TypeAlias)
     | Using \<Rightarrow> (Invalid, Null)
     | Binding \<Rightarrow> (Var, Variable)
     | Field \<Rightarrow> (Var, SK_Field)
     | ObjCIvar \<Rightarrow> (Var, SK_Field)
     | Function \<Rightarrow> (Func, SK_Function)
     | CXXMethod \<Rightarrow> (Func, if isStatic (attrs D) then StaticMethod else Method)
     | CXXConstructor \<Rightarrow> (Func, Constructor)
     | CXXConversion \<Rightarrow> (Func, Method)
     | CXXDestructor \<Rightarrow> (Func, Method)
     | NonTypeTemplateParm \<Rightarrow> (Var, Parameter)
     | VarDecl \<Rightarrow> (Var, Variable)
     | Decomposition \<Rightarrow> (Var, Variable)
     | ImplicitParam \<Rightarrow> (Var, Parameter)
     | ParmVar \<Rightarrow> (Var, Parameter)
     | VarTemplateSpecialization \<Rightarrow> (Var, Variable)
     | VarTemplatePartialSpecialization \<Rightarrow> (Var, Variable)
     | EnumConstant \<Rightarrow> (Var, EnumMember)
     | UnresolvedUsingValue \<Rightarrow> (Var, Variable)
     | TranslationUnit \<Rightarrow> (Invalid, kind)
     | _ \<Rightarrow> (Invalid, kind))"

subsection \<open>uniquify: the deduplication of the finalization step\<close>

text \<open>
  \<^verbatim>\<open>template <typename T> void uniquify(std::vector<T> &a)\<close> walks the vector with a
  read index \<open>i\<close> and a write index \<open>n\<close>; \<open>seen\<close> is the \<open>std::unordered_set\<close>.
  The state of the loop is the vector, the set and \<open>n\<close>; the vector keeps its size
  during the loop and is resized to \<open>n\<close> after it.
\<close>

definition uniquify_step :: "nat \<Rightarrow> 'a list \<times> 'a set \<times> nat \<Rightarrow> 'a list \<times> 'a set \<times> nat" where
  "uniquify_step i s =
     (case s of (a, seen, n) \<Rightarrow>
        if a ! i \<in> seen then (a, seen, n)
        else (a[n := a ! i], insert (a ! i) seen, Suc n))"

definition uniquify :: "'a list \<Rightarrow> 'a list" where
  "uniquify a =
     (case fold uniquify_step [0..<length a] (a, {}, 0) of (a', seen, n) \<Rightarrow> take n a')"

text \<open>The first occurrences of a list, read off the indices: the reference for the order.\<close>

definition first_occurrences :: "'a list \<Rightarrow> nat \<Rightarrow> 'a list" where
  "first_occurrences a i = map (\<lambda>j. a ! j) (filter (\<lambda>j. a ! j \<notin> set (take j a)) [0..<i])"

subsection \<open>Example nodes\<close>

text \<open>
  A node with a category, an identity, a textual reference and names, and nothing else:
  a struct tag, not static, with linkage, no links to other nodes, a null type.
\<close>

definition simpleAttrs :: "DeclKind \<Rightarrow> nat \<Rightarrow> string \<Rightarrow> (string \<times> string) option \<Rightarrow> DeclAttrs" where
  "simpleAttrs k c u nm =
     \<lparr> getDeclKind = k, getCanonicalDecl = c, generateUSRForDecl = u, namedDecl = nm,
       hasLinkage = True, getTagKind = TTK_Struct, isStatic = False, isFirstDecl = True,
       isAnonymousNamespace = False, getTypeAsWritten = True, hasDefinition = True,
       getTypedefNameForAnonDecl = None, getInitVal = 0 \<rparr>"

definition simpleDecl :: "DeclKind \<Rightarrow> nat \<Rightarrow> string \<Rightarrow> (string \<times> string) option \<Rightarrow> Decl" where
  "simpleDecl k c u nm = Decl (simpleAttrs k c u nm) None None None None None None NullType [] []"

subsection \<open>Location records and entities\<close>

text \<open>
  The records of \<^verbatim>\<open>indexer.hh\<close>, which is not under src/, with the fields the source
  reads and writes. \<^verbatim>\<open>Use\<close> is \<^verbatim>\<open>{{range, role}, file_id}\<close> and \<^verbatim>\<open>DeclRef\<close> extends it
  with \<^verbatim>\<open>extent\<close>; \<^verbatim>\<open>SymbolRef\<close> is \<^verbatim>\<open>{range, usr, kind, role}\<close>. A role is a bit set
  in 16 bits, a symbol key a 64-bit value. Interned C strings are strings; the test
  \<^verbatim>\<open>s[0] == '\0'\<close> is \<open>s = []\<close>. \<^verbatim>\<open>Maybe<DeclRef>\<close> is an option.
\<close>

type_synonym Usr = "64 word"
type_synonym Role = "16 word"
type_synonym FileID = int

record Pos =
  line :: int
  column :: int

record Range =
  start :: Pos
  finish :: Pos

definition Role_Declaration :: Role where "Role_Declaration = 1"
definition Role_Definition :: Role where "Role_Definition = 2"
definition Role_Reference :: Role where "Role_Reference = 4"
definition Role_Dynamic :: Role where "Role_Dynamic = 64"
definition Role_Implicit :: Role where "Role_Implicit = 256"

record Use =
  use_range :: Range
  use_role :: Role
  file_id :: int

record DeclRef = Use +
  extent :: Range

record SymbolRef =
  sym_range :: Range
  sym_usr :: Usr
  sym_kind :: Kind
  sym_role :: Role

record Def =
  detailed_name :: string
  hover :: string
  comments :: string
  spell :: "DeclRef option"
  qual_name_offset :: int
  short_name_offset :: int
  short_name_size :: int
  kind :: SymbolKind
  parent_kind :: SymbolKind

record FuncDef = Def +
  func_bases :: "Usr list"
  func_vars :: "Usr list"
  callees :: "SymbolRef list"

record TypeDef = Def +
  bases :: "Usr list"
  funcs :: "Usr list"
  types :: "Usr list"
  vars :: "(Usr \<times> int) list"
  alias_of :: Usr

record VarDef = Def +
  var_type :: Usr
  storage :: nat

record 'd Entity =
  usr :: Usr
  def :: 'd
  declarations :: "DeclRef list"
  uses :: "Use list"

record 'd DerivedEntity = "'d Entity" +
  derived :: "Usr list"

record IndexType = "TypeDef DerivedEntity" +
  instances :: "Usr list"

type_synonym IndexFunc = "FuncDef DerivedEntity"
type_synonym IndexVar = "VarDef Entity"

text \<open>The default-constructed definition records and entities.\<close>

definition FuncDef0 :: FuncDef where
  "FuncDef0 = \<lparr> detailed_name = [], hover = [], comments = [], spell = None,
      qual_name_offset = 0, short_name_offset = 0, short_name_size = 0,
      kind = Unknown, parent_kind = Unknown,
      func_bases = [], func_vars = [], callees = [] \<rparr>"

definition TypeDef0 :: TypeDef where
  "TypeDef0 = \<lparr> detailed_name = [], hover = [], comments = [], spell = None,
      qual_name_offset = 0, short_name_offset = 0, short_name_size = 0,
      kind = Unknown, parent_kind = Unknown,
      bases = [], funcs = [], types = [], vars = [], alias_of = 0 \<rparr>"

definition VarDef0 :: VarDef where
  "VarDef0 = \<lparr> detailed_name = [], hover = [], comments = [], spell = None,
      qual_name_offset = 0, short_name_offset = 0, short_name_size = 0,
      kind = Unknown, parent_kind = Unknown,
      var_type = 0, storage = 0 \<rparr>"

definition IndexFunc0 :: IndexFunc where
  "IndexFunc0 = \<lparr> usr = 0, def = FuncDef0, declarations = [], uses = [], derived = [] \<rparr>"

definition IndexType0 :: IndexType where
  "IndexType0 = \<lparr> usr = 0, def = TypeDef0, declarations = [], uses = [], derived = [],
      instances = [] \<rparr>"

definition IndexVar0 :: IndexVar where
  "IndexVar0 = \<lparr> usr = 0, def = VarDef0, declarations = [], uses = [] \<rparr>"

subsection \<open>The per-file index\<close>

text \<open>
  \<^verbatim>\<open>IndexFile\<close>: the three entity maps are maps from symbol keys; the table from file
  handles to (local index, path) is an association list, since the source reads its
  size. The constructor sets the path, the mode and the content; every other field has
  the default of its declaration.
\<close>

record IndexFile =
  path :: string
  no_linkage :: bool
  file_contents :: string
  mtime :: int
  language :: int
  import_file :: string
  args :: "string list"
  usr2func :: "Usr \<rightharpoonup> IndexFunc"
  usr2type :: "Usr \<rightharpoonup> IndexType"
  usr2var :: "Usr \<rightharpoonup> IndexVar"
  file_includes :: "(int \<times> string) list"
  skipped_ranges :: "Range list"
  uid2lid_and_path :: "(FileID \<times> int \<times> string) list"
  lid2path :: "(int \<times> string) list"
  dependencies :: "string \<rightharpoonup> int"

definition IndexFile_new :: "string \<Rightarrow> string \<Rightarrow> bool \<Rightarrow> IndexFile" where
  "IndexFile_new p contents nl =
     \<lparr> path = p, no_linkage = nl, file_contents = contents, mtime = 0, language = 0,
       import_file = [], args = [], usr2func = Map.empty, usr2type = Map.empty,
       usr2var = Map.empty, file_includes = [], skipped_ranges = [], uid2lid_and_path = [],
       lid2path = [], dependencies = Map.empty \<rparr>"

text \<open>
  \<^verbatim>\<open>toFunc\<close>, \<^verbatim>\<open>toType\<close>, \<^verbatim>\<open>toVar\<close>: \<^verbatim>\<open>try_emplace\<close> inserts a default entity when the key
  is new, and the key is written into it; the entity found is returned by reference.
\<close>

definition toFunc :: "Usr \<Rightarrow> IndexFile \<Rightarrow> IndexFunc \<times> IndexFile" where
  "toFunc u db =
     (case usr2func db u of
        Some e \<Rightarrow> (e, db)
      | None \<Rightarrow> (IndexFunc0\<lparr>usr := u\<rparr>,
                 db\<lparr>usr2func := (usr2func db)(u \<mapsto> IndexFunc0\<lparr>usr := u\<rparr>)\<rparr>))"

definition toType :: "Usr \<Rightarrow> IndexFile \<Rightarrow> IndexType \<times> IndexFile" where
  "toType u db =
     (case usr2type db u of
        Some e \<Rightarrow> (e, db)
      | None \<Rightarrow> (IndexType0\<lparr>usr := u\<rparr>,
                 db\<lparr>usr2type := (usr2type db)(u \<mapsto> IndexType0\<lparr>usr := u\<rparr>)\<rparr>))"

definition toVar :: "Usr \<Rightarrow> IndexFile \<Rightarrow> IndexVar \<times> IndexFile" where
  "toVar u db =
     (case usr2var db u of
        Some e \<Rightarrow> (e, db)
      | None \<Rightarrow> (IndexVar0\<lparr>usr := u\<rparr>,
                 db\<lparr>usr2var := (usr2var db)(u \<mapsto> IndexVar0\<lparr>usr := u\<rparr>)\<rparr>))"

text \<open>
  A write through the reference that \<^verbatim>\<open>toFunc\<close> (\<^verbatim>\<open>toType\<close>, \<^verbatim>\<open>toVar\<close>) returned:
  \<^verbatim>\<open>db->toFunc(u).uses.push_back(x)\<close> is \<open>withFunc u (\<lambda>e. e\<lparr>uses := uses e @ [x]\<rparr>) db\<close>.
\<close>

definition withFunc :: "Usr \<Rightarrow> (IndexFunc \<Rightarrow> IndexFunc) \<Rightarrow> IndexFile \<Rightarrow> IndexFile" where
  "withFunc u f db = (case toFunc u db of (e, db') \<Rightarrow> db'\<lparr>usr2func := (usr2func db')(u \<mapsto> f e)\<rparr>)"

definition withType :: "Usr \<Rightarrow> (IndexType \<Rightarrow> IndexType) \<Rightarrow> IndexFile \<Rightarrow> IndexFile" where
  "withType u f db = (case toType u db of (e, db') \<Rightarrow> db'\<lparr>usr2type := (usr2type db')(u \<mapsto> f e)\<rparr>)"

definition withVar :: "Usr \<Rightarrow> (IndexVar \<Rightarrow> IndexVar) \<Rightarrow> IndexFile \<Rightarrow> IndexFile" where
  "withVar u f db = (case toVar u db of (e, db') \<Rightarrow> db'\<lparr>usr2var := (usr2var db')(u \<mapsto> f e)\<rparr>)"

subsection \<open>What the pass reads from its environment\<close>

text \<open>
  The engine's file manager, the file system, the staleness cache, the multi-version
  matcher, the hash of textual references and the configuration are outside the source
  file; the pass reads them through \<open>Env\<close>.
  \<^item> \<open>getFileEntryForID\<close> is None for a handle without a file entry; a file entry gives the
    result of \<^verbatim>\<open>pathFromFileEntry\<close>, its modification time, and the absolute path that
    \<^verbatim>\<open>getFileLID\<close> computes from it (None when the path cannot be made absolute).
  \<^item> \<open>vfs_stamp calls path mtime mode\<close> is the answer of \<^verbatim>\<open>vfs.stamp(path, mtime, mode)\<close>
    after the earlier calls \<open>calls\<close> of this pass.
\<close>

record FileEntry =
  pathFromFileEntry :: string
  getModificationTime :: int
  absolutePath :: "string option"

record Env =
  getFileEntryForID :: "FileID \<Rightarrow> FileEntry option"
  lastWriteTime :: "string \<Rightarrow> int option"
  readContent :: "string \<Rightarrow> string option"
  vfs_stamp :: "(string \<times> int \<times> int) list \<Rightarrow> string \<Rightarrow> int \<Rightarrow> int \<Rightarrow> bool"
  matches :: "string \<Rightarrow> bool"
  hashUsr :: "string \<Rightarrow> Usr"
  getMainFileID :: FileID
  multiVersion :: int
  index_comments :: int
  maxInitializerLines :: int

subsection \<open>The state of one pass: IndexParam\<close>

record File =
  path :: string
  mtime :: int
  content :: string
  db :: "IndexFile option"

record DeclInfo =
  info_usr :: Usr
  short_name :: string
  qualified_name :: string

text \<open>
  \<^verbatim>\<open>IndexParam\<close>. Two fields are not in the source's struct: \<open>vfs_calls\<close> records every call
  of \<^verbatim>\<open>vfs.stamp\<close> with the handle it was made for, and \<open>rendered\<close> records the canonical
  nodes for which \<^verbatim>\<open>getUsr\<close> generated the reference and rendered the names. Nothing
  reads them but the properties below (and \<open>vfs_stamp\<close>, which is given the calls without
  the handles).
\<close>

record IndexParam =
  uid2file :: "FileID \<rightharpoonup> File"
  uid2multi :: "FileID \<rightharpoonup> bool"
  Decl2Info :: "nat \<rightharpoonup> DeclInfo"
  param_no_linkage :: bool
  vfs_calls :: "(FileID \<times> string \<times> int \<times> int) list"
  rendered :: "nat list"

definition IndexParam_new :: "bool \<Rightarrow> IndexParam" where
  "IndexParam_new nl =
     \<lparr> uid2file = Map.empty, uid2multi = Map.empty, Decl2Info = Map.empty,
       param_no_linkage = nl, vfs_calls = [], rendered = [] \<rparr>"

definition File0 :: File where
  "File0 = \<lparr> path = [], mtime = 0, content = [], db = None \<rparr>"

definition seenFile :: "Env \<Rightarrow> FileID \<Rightarrow> IndexParam \<Rightarrow> IndexParam" where
  "seenFile env fid p =
     (case uid2file p fid of
        Some f \<Rightarrow> p
      | None \<Rightarrow>
          (case getFileEntryForID env fid of
             None \<Rightarrow> p\<lparr>uid2file := (uid2file p)(fid \<mapsto> File0)\<rparr>
           | Some fe \<Rightarrow>
               (let pa = pathFromFileEntry fe;
                    mt0 = getModificationTime fe;
                    mt = (if mt0 = 0
                          then (case lastWriteTime env pa of Some tim \<Rightarrow> tim | None \<Rightarrow> mt0)
                          else mt0);
                    co = (case readContent env pa of Some c \<Rightarrow> c | None \<Rightarrow> []);
                    mode = (if param_no_linkage p then 3 else 1);
                    stamped = vfs_stamp env (map snd (vfs_calls p)) pa mt mode
                in p\<lparr>vfs_calls := vfs_calls p @ [(fid, pa, mt, mode)],
                     uid2file := (uid2file p)(fid \<mapsto>
                       \<lparr> path = pa, mtime = mt, content = co,
                         db = (if stamped then Some (IndexFile_new pa co (param_no_linkage p))
                               else None) \<rparr>)\<rparr>)))"

text \<open>\<^verbatim>\<open>uid2file[fid]\<close> inserts a default entry when the key is missing.\<close>

definition consumeFile :: "Env \<Rightarrow> FileID \<Rightarrow> IndexParam \<Rightarrow> IndexFile option \<times> IndexParam" where
  "consumeFile env fid p =
     (let p' = seenFile env fid p
      in case uid2file p' fid of
           Some f \<Rightarrow> (db f, p')
         | None \<Rightarrow> (None, p'\<lparr>uid2file := (uid2file p')(fid \<mapsto> File0)\<rparr>))"

definition useMultiVersion :: "Env \<Rightarrow> FileID \<Rightarrow> IndexParam \<Rightarrow> bool \<times> IndexParam" where
  "useMultiVersion env fid p =
     (case uid2multi p fid of
        Some b \<Rightarrow> (b, p)
      | None \<Rightarrow>
          (case getFileEntryForID env fid of
             Some fe \<Rightarrow> (matches env (pathFromFileEntry fe),
                         p\<lparr>uid2multi := (uid2multi p)(fid \<mapsto> matches env (pathFromFileEntry fe))\<rparr>)
           | None \<Rightarrow> (False, p\<lparr>uid2multi := (uid2multi p)(fid \<mapsto> False)\<rparr>)))"

text \<open>
  The index of a staged file is reached through a pointer; a handler that writes to
  \<^verbatim>\<open>*db\<close> for the handle \<open>fid\<close> is \<open>update_db fid f\<close>.
\<close>

definition update_db :: "FileID \<Rightarrow> (IndexFile \<Rightarrow> IndexFile) \<Rightarrow> IndexParam \<Rightarrow> IndexParam" where
  "update_db fid f p =
     (case uid2file p fid of
        Some fl \<Rightarrow> (case db fl of
                     Some d \<Rightarrow> p\<lparr>uid2file := (uid2file p)(fid \<mapsto> fl\<lparr>db := Some (f d)\<rparr>)\<rparr>
                   | None \<Rightarrow> p)
      | None \<Rightarrow> p)"

subsection \<open>Identity resolution\<close>

text \<open>\<^verbatim>\<open>std::string::find(pat, i)\<close> and \<^verbatim>\<open>std::string::replace(pos, len, str)\<close>.\<close>

primrec find_first :: "string \<Rightarrow> string \<Rightarrow> nat option" where
  "find_first pat [] = (if pat = [] then Some 0 else None)"
| "find_first pat (c # cs) =
     (if take (length pat) (c # cs) = pat then Some 0
      else map_option Suc (find_first pat cs))"

definition find_from :: "string \<Rightarrow> string \<Rightarrow> nat \<Rightarrow> nat option" where
  "find_from name pat i =
     (if length name < i then None
      else map_option (\<lambda>j. i + j) (find_first pat (drop i name)))"

definition replace_at :: "string \<Rightarrow> nat \<Rightarrow> nat \<Rightarrow> string \<Rightarrow> string" where
  "replace_at name pos len str = take pos name @ str @ drop (pos + len) name"

lemma find_first_bound:
  "find_first pat s = Some j \<Longrightarrow> j + length pat \<le> length s"
proof (induction s arbitrary: j)
  case Nil
  then show ?case by (simp split: if_splits)
next
  case (Cons c cs)
  show ?case
  proof (cases "take (length pat) (c # cs) = pat")
    case True
    from arg_cong [OF True, of length] have "length pat \<le> length (c # cs)"
      by simp
    with True Cons.prems show ?thesis by simp
  next
    case False
    with Cons.prems obtain j' where "find_first pat cs = Some j'" "j = Suc j'"
      by auto
    with Cons.IH show ?thesis by simp
  qed
qed

lemma find_from_bound:
  "find_from name pat i = Some j \<Longrightarrow> i \<le> j \<and> j + length pat \<le> length name"
  by (auto simp: find_from_def split: if_splits dest!: find_first_bound)

text \<open>
  \<^verbatim>\<open>simplifyAnonymous\<close>: every \<^verbatim>\<open>(anonymous namespace)\<close> becomes \<^verbatim>\<open>(anon ns)\<close>, every other
  \<^verbatim>\<open>(anonymous x\<close> becomes \<^verbatim>\<open>(anon x\<close>. The argument \<open>i\<close> is the loop variable.
\<close>

function simplifyAnonymous_from :: "string \<Rightarrow> nat \<Rightarrow> string" where
  "simplifyAnonymous_from name i =
     (case find_from name ''(anonymous '' i of
        None \<Rightarrow> name
      | Some j \<Rightarrow>
          (if length name - Suc j > 19 \<and> take 9 (drop (Suc j + 10) name) = ''namespace''
           then simplifyAnonymous_from (replace_at name (Suc j) 19 ''anon ns'') (Suc j)
           else simplifyAnonymous_from (replace_at name (Suc j) 9 ''anon'') (Suc j)))"
  by pat_completeness auto
termination
proof (relation "measure (\<lambda>(name, i). length name - i)")
  show "wf (measure (\<lambda>(name, i). length name - i))" by simp
next
  fix name i j
  assume f: "find_from name ''(anonymous '' i = Some j"
    and c: "19 < length name - Suc j \<and> take 9 (drop (Suc j + 10) name) = ''namespace''"
  from find_from_bound [OF f] have "i \<le> j" "j + 11 \<le> length name" by simp_all
  with c show "((replace_at name (Suc j) 19 ''anon ns'', Suc j), name, i)
      \<in> measure (\<lambda>(name, i). length name - i)"
    by (simp add: replace_at_def)
next
  fix name i j
  assume f: "find_from name ''(anonymous '' i = Some j"
  from find_from_bound [OF f] have "i \<le> j" "j + 11 \<le> length name" by simp_all
  then show "((replace_at name (Suc j) 9 ''anon'', Suc j), name, i)
      \<in> measure (\<lambda>(name, i). length name - i)"
    by (simp add: replace_at_def)
qed

definition simplifyAnonymous :: "string \<Rightarrow> string" where
  "simplifyAnonymous name = simplifyAnonymous_from name 0"

text \<open>
  \<^verbatim>\<open>getUsr\<close>: the cache is keyed by the canonical node. The result is the key and the cache
  entry that the \<^verbatim>\<open>info\<close> argument is pointed at. The attributes \<open>generateUSRForDecl\<close> and
  \<open>namedDecl\<close> of a node are the engine's answers for its canonical node.
\<close>

definition getUsr :: "Env \<Rightarrow> Decl \<Rightarrow> IndexParam \<Rightarrow> (Usr \<times> DeclInfo) \<times> IndexParam" where
  "getUsr env D p =
     (case Decl2Info p (getCanonicalDecl (attrs D)) of
        Some info \<Rightarrow> ((info_usr info, info), p)
      | None \<Rightarrow>
          (let info = \<lparr> info_usr = hashUsr env (generateUSRForDecl (attrs D)),
                        short_name = (case namedDecl (attrs D) of
                                        Some (n, q) \<Rightarrow> n | None \<Rightarrow> []),
                        qualified_name = (case namedDecl (attrs D) of
                                       Some (n, q) \<Rightarrow> simplifyAnonymous q | None \<Rightarrow> []) \<rparr>
           in ((info_usr info, info),
               p\<lparr>Decl2Info := (Decl2Info p)(getCanonicalDecl (attrs D) \<mapsto> info),
                 rendered := rendered p @ [getCanonicalDecl (attrs D)]\<rparr>)))"

text \<open>\<^verbatim>\<open>getAdjustedDecl\<close>, for a node that is not null; the result is None for a null link.\<close>

definition isCXXRecordDecl :: "Decl \<Rightarrow> bool" where
  "isCXXRecordDecl D \<longleftrightarrow>
     getKindOf D \<in> {CXXRecord, ClassTemplateSpecialization, ClassTemplatePartialSpecialization}"

definition isClassTemplateSpecializationDecl :: "Decl \<Rightarrow> bool" where
  "isClassTemplateSpecializationDecl D \<longleftrightarrow>
     getKindOf D \<in> {ClassTemplateSpecialization, ClassTemplatePartialSpecialization}"

definition isRecordDecl :: "Decl \<Rightarrow> bool" where
  "isRecordDecl D \<longleftrightarrow>
     getKindOf D \<in> {Record, CXXRecord, ClassTemplateSpecialization,
                    ClassTemplatePartialSpecialization}"

fun getAdjustedDecl :: "Decl \<Rightarrow> Decl option" where
  "getAdjustedDecl (Decl a rc pa sp st inst ns ty bs ov) =
     (if getDeclKind a \<in> {CXXRecord, ClassTemplateSpecialization, ClassTemplatePartialSpecialization}
      then (if getDeclKind a \<in> {ClassTemplateSpecialization, ClassTemplatePartialSpecialization}
            then (if \<not> getTypeAsWritten a
                  then (case sp of Some D1 \<Rightarrow> getAdjustedDecl D1 | None \<Rightarrow> None)
                  else Some (Decl a rc pa sp st inst ns ty bs ov))
            else (case inst of
                    Some D1 \<Rightarrow> getAdjustedDecl D1
                  | None \<Rightarrow> Some (Decl a rc pa sp st inst ns ty bs ov)))
      else if getDeclKind a = Enum
      then (case inst of
              Some D1 \<Rightarrow> getAdjustedDecl D1
            | None \<Rightarrow> Some (Decl a rc pa sp st inst ns ty bs ov))
      else Some (Decl a rc pa sp st inst ns ty bs ov))"

subsection \<open>The source-language tag\<close>

datatype LanguageId = LangC | LangCpp | LangObjC

definition getDeclLanguage :: "Decl \<Rightarrow> LanguageId" where
  "getDeclLanguage D =
    (case getKindOf D of
       ImplicitParam \<Rightarrow> LangObjC
     | ObjCAtDefsField \<Rightarrow> LangObjC
     | ObjCCategory \<Rightarrow> LangObjC
     | ObjCCategoryImpl \<Rightarrow> LangObjC
     | ObjCCompatibleAlias \<Rightarrow> LangObjC
     | ObjCImplementation \<Rightarrow> LangObjC
     | ObjCInterface \<Rightarrow> LangObjC
     | ObjCIvar \<Rightarrow> LangObjC
     | ObjCMethod \<Rightarrow> LangObjC
     | ObjCProperty \<Rightarrow> LangObjC
     | ObjCPropertyImpl \<Rightarrow> LangObjC
     | ObjCProtocol \<Rightarrow> LangObjC
     | ObjCTypeParam \<Rightarrow> LangObjC
     | CXXConstructor \<Rightarrow> LangCpp
     | CXXConversion \<Rightarrow> LangCpp
     | CXXDestructor \<Rightarrow> LangCpp
     | CXXMethod \<Rightarrow> LangCpp
     | CXXRecord \<Rightarrow> LangCpp
     | ClassTemplate \<Rightarrow> LangCpp
     | ClassTemplatePartialSpecialization \<Rightarrow> LangCpp
     | ClassTemplateSpecialization \<Rightarrow> LangCpp
     | Friend \<Rightarrow> LangCpp
     | FriendTemplate \<Rightarrow> LangCpp
     | FunctionTemplate \<Rightarrow> LangCpp
     | LinkageSpec \<Rightarrow> LangCpp
     | Namespace \<Rightarrow> LangCpp
     | NamespaceAlias \<Rightarrow> LangCpp
     | NonTypeTemplateParm \<Rightarrow> LangCpp
     | StaticAssert \<Rightarrow> LangCpp
     | TemplateTemplateParm \<Rightarrow> LangCpp
     | TemplateTypeParm \<Rightarrow> LangCpp
     | UnresolvedUsingTypename \<Rightarrow> LangCpp
     | UnresolvedUsingValue \<Rightarrow> LangCpp
     | Using \<Rightarrow> LangCpp
     | UsingDirective \<Rightarrow> LangCpp
     | UsingShadow \<Rightarrow> LangCpp
     | _ \<Rightarrow> LangC)"

text \<open>The numbers of the language tags, as the header of the repository declares them.\<close>

definition LanguageId_int :: "LanguageId \<Rightarrow> int" where
  "LanguageId_int l = (case l of LangC \<Rightarrow> 0 | LangCpp \<Rightarrow> 1 | LangObjC \<Rightarrow> 2)"

subsection \<open>Occurrence events\<close>

text \<open>
  One call of \<^verbatim>\<open>handleDeclOccurence\<close>, with the answers of the engine that the handler asks
  for. Locations are given resolved: \<open>occ_fid\<close> is the handle of the (expansion or token)
  range \<^verbatim>\<open>R\<close>, 0 when invalid, and \<open>occ_loc\<close> its range. The texts that \<^verbatim>\<open>setName\<close>,
  \<^verbatim>\<open>setVarName\<close> and \<^verbatim>\<open>getComment\<close> synthesize from the engine's printer are not
  translated; the event carries their results. Likewise \<open>occ_members\<close> is the list of
  named fields, with their offsets, that \<^verbatim>\<open>collectRecordMembers\<close> visits for \<^verbatim>\<open>OrigD\<close>.
  The branch under \<^verbatim>\<open>LLVM_VERSION_MAJOR < 9\<close> is not part of the model.
\<close>

record NameResult =
  nr_detailed_name :: string
  nr_qual_name_offset :: int
  nr_short_name_offset :: int
  nr_short_name_size :: int

record VarNameResult = NameResult +
  nr_storage :: "nat option"
  nr_hover :: "string option"

record Occurrence =
  occ_D :: Decl
  occ_Roles :: "32 word"
  occ_OrigD :: Decl
  occ_ContainerDC :: Decl
  occ_fid :: FileID
  occ_loc :: Range
  occ_Loc_isFileID :: bool
  occ_Spell_ne_Loc :: bool
  occ_Spell_fid :: FileID
  occ_Spell_range :: Range
  occ_isWrittenInMainFile :: bool
  occ_NameInfo_range :: "Range option"
  occ_extent :: Range
  occ_getComment :: string
  occ_setName_D :: "string \<Rightarrow> string \<Rightarrow> NameResult"
  occ_setName_OrigD :: "string \<Rightarrow> string \<Rightarrow> NameResult"
  occ_setVarName :: "string \<Rightarrow> string \<Rightarrow> VarNameResult"
  occ_members :: "(Decl \<times> int) list"
  occ_D_Location_fid :: FileID
  occ_D_Location_range :: Range
  occ_D_SourceRange :: Range
  occ_TypeLoc_fid :: FileID
  occ_TypeLoc_range :: Range

subsection \<open>The occurrence handler\<close>

text \<open>\<^verbatim>\<open>getFileLID\<close>: the local index of a file handle in the table of \<^verbatim>\<open>db\<close>.\<close>

definition getFileLID :: "Env \<Rightarrow> FileID \<Rightarrow> IndexFile \<Rightarrow> int \<times> IndexFile" where
  "getFileLID env fid d =
     (case map_of (uid2lid_and_path d) fid of
        Some (lid, pth) \<Rightarrow> (lid, d)
      | None \<Rightarrow>
          (case getFileEntryForID env fid of
             None \<Rightarrow> (- 1, d\<lparr>uid2lid_and_path := uid2lid_and_path d @ [(fid, 0, [])]\<rparr>)
           | Some fe \<Rightarrow>
               (case absolutePath fe of
                  None \<Rightarrow> (- 1, d\<lparr>uid2lid_and_path := uid2lid_and_path d
                                     @ [(fid, int (length (uid2lid_and_path d)), [])]\<rparr>)
                | Some pth \<Rightarrow> (int (length (uid2lid_and_path d)),
                               d\<lparr>uid2lid_and_path := uid2lid_and_path d
                                     @ [(fid, int (length (uid2lid_and_path d)), pth)]\<rparr>))))"

definition push_use :: "Use \<Rightarrow> ('d, 'm) Entity_scheme \<Rightarrow> ('d, 'm) Entity_scheme" where
  "push_use u e = e\<lparr>uses := uses e @ [u]\<rparr>"

text \<open>\<^verbatim>\<open>addMacroUse\<close>; the \<^verbatim>\<open>default\<close> arm is \<^verbatim>\<open>llvm_unreachable\<close>, modelled as None.\<close>

definition addMacroUse :: "Env \<Rightarrow> Usr \<Rightarrow> Kind \<Rightarrow> FileID \<Rightarrow> Range \<Rightarrow> IndexFile \<Rightarrow> IndexFile option" where
  "addMacroUse env u k sl_fid sl_range d =
     (case getFileLID env sl_fid d of
        (lid, d1) \<Rightarrow>
          if lid < 0 then Some d1
          else (let use = \<lparr> use_range = sl_range, use_role = Role_Dynamic, file_id = lid \<rparr>
                in case k of
                     Func \<Rightarrow> Some (withFunc u (push_use use) d1)
                   | Type \<Rightarrow> Some (withType u (push_use use) d1)
                   | Var \<Rightarrow> Some (withVar u (push_use use) d1)
                   | _ \<Rightarrow> None))"

text \<open>
  The walk from a declaration context out of anonymous namespaces. The context of a
  node is a link of the node; a missing link is a null pointer, and following it is None.
\<close>

fun skipAnonymousNamespaces :: "Decl \<Rightarrow> Decl option" where
  "skipAnonymousNamespaces (Decl a rc pa sp st inst ns ty bs ov) =
     (if getDeclKind a = Namespace \<and> isAnonymousNamespace a
      then (case rc of Some D1 \<Rightarrow> skipAnonymousNamespaces D1 | None \<Rightarrow> None)
      else Some (Decl a rc pa sp st inst ns ty bs ov))"

text \<open>
  The generic lambda \<^verbatim>\<open>do_def_decl\<close>, for any of the three entities. \<open>cm\<close> is the
  configuration's \<^verbatim>\<open>index.comments\<close>.
\<close>

definition do_def_decl ::
  "int \<Rightarrow> Occurrence \<Rightarrow> bool \<Rightarrow> bool \<Rightarrow> Range \<Rightarrow> Role \<Rightarrow> int \<Rightarrow> Decl
    \<Rightarrow> ('a Def_scheme, 'm) Entity_scheme \<Rightarrow> ('a Def_scheme, 'm) Entity_scheme" where
  "do_def_decl cm occ is_def is_decl loc rl lid SemDC entity =
     (let use = \<lparr> use_range = loc, use_role = rl, file_id = lid \<rparr>;
          ref = \<lparr> use_range = loc, use_role = rl, file_id = lid, extent = occ_extent occ \<rparr>;
          set_comments = (\<lambda>e. if comments (def e) = [] \<and> cm \<noteq> 0
                               then e\<lparr>def := (def e)\<lparr>comments := occ_getComment occ\<rparr>\<rparr>
                               else e)
      in if is_def
         then set_comments
                (entity\<lparr>def := (def entity)\<lparr>spell := Some ref,
                    parent_kind := snd (getKind SemDC (parent_kind (def entity)))\<rparr>\<rparr>)
         else if is_decl
         then set_comments (entity\<lparr>declarations := declarations entity @ [ref]\<rparr>)
         else entity\<lparr>uses := uses entity @ [use]\<rparr>)"

definition apply_NameResult :: "('n NameResult_scheme) \<Rightarrow> 'a Def_scheme \<Rightarrow> 'a Def_scheme" where
  "apply_NameResult r d =
     d\<lparr>detailed_name := nr_detailed_name r, qual_name_offset := nr_qual_name_offset r,
       short_name_offset := nr_short_name_offset r, short_name_size := nr_short_name_size r\<rparr>"

definition apply_VarNameResult :: "VarNameResult \<Rightarrow> VarDef \<Rightarrow> VarDef" where
  "apply_VarNameResult r d =
     (let d1 = (case nr_storage r of Some sc \<Rightarrow> d\<lparr>storage := sc\<rparr> | None \<Rightarrow> d);
          d2 = apply_NameResult r d1
      in case nr_hover r of Some h \<Rightarrow> d2\<lparr>hover := h\<rparr> | None \<Rightarrow> d2)"

text \<open>
  The flags of the handler: \<^verbatim>\<open>is_decl\<close>, \<^verbatim>\<open>is_def\<close> (a declaration of a structured
  binding counts as a definition), the range narrowed to the name for definitions of
  functions, and the node after \<^verbatim>\<open>getAdjustedDecl\<close> (only when not a definition).
\<close>

definition is_decl_of :: "Occurrence \<Rightarrow> bool" where
  "is_decl_of occ \<longleftrightarrow> occ_Roles occ AND 1 \<noteq> 0"

definition is_def_of :: "Occurrence \<Rightarrow> bool" where
  "is_def_of occ \<longleftrightarrow>
     occ_Roles occ AND 2 \<noteq> 0 \<or> (is_decl_of occ \<and> getKindOf (occ_D occ) = Binding)"

definition narrowed_loc :: "Occurrence \<Rightarrow> Range" where
  "narrowed_loc occ =
     (if is_def_of occ
         \<and> getKindOf (occ_D occ) \<in> {CXXConversion, CXXDestructor, CXXMethod, Function}
         \<and> occ_Loc_isFileID occ
      then (case occ_NameInfo_range occ of Some r \<Rightarrow> r | None \<Rightarrow> occ_loc occ)
      else occ_loc occ)"

definition adjusted_D :: "Occurrence \<Rightarrow> Decl" where
  "adjusted_D occ =
     (if is_def_of occ then occ_D occ
      else (case getAdjustedDecl (occ_D occ) of Some D1 \<Rightarrow> D1 | None \<Rightarrow> occ_D occ))"

text \<open>
  The three arms of \<^verbatim>\<open>switch (kind)\<close>. The state is the index \<^verbatim>\<open>*db\<close> and the pass state
  (for the cache of \<^verbatim>\<open>getUsr\<close>). \<open>D\<close> is the adjusted node, \<open>u\<close> and \<open>info\<close> the results
  of \<^verbatim>\<open>getUsr(D, &info)\<close>, \<open>ls_kind\<close> the fine kind of the node the event came with.
\<close>

definition macro_use ::
  "Env \<Rightarrow> Occurrence \<Rightarrow> Usr \<Rightarrow> Kind \<Rightarrow> IndexFile \<Rightarrow> IndexFile option" where
  "macro_use env occ u k d =
     (if occ_Spell_ne_Loc occ
      then addMacroUse env u k (occ_Spell_fid occ) (occ_Spell_range occ) d
      else Some d)"

definition occ_Func ::
  "Env \<Rightarrow> Occurrence \<Rightarrow> Decl \<Rightarrow> Usr \<Rightarrow> DeclInfo \<Rightarrow> SymbolKind \<Rightarrow> int \<Rightarrow> Decl \<Rightarrow> Decl
    \<Rightarrow> IndexFile \<times> IndexParam \<Rightarrow> (IndexFile \<times> IndexParam) option" where
  "occ_Func env occ D u info ls_kind lid SemDC LexDC s =
     (case s of (d, p) \<Rightarrow>
      let is_def = is_def_of occ; is_decl = is_decl_of occ; loc = narrowed_loc occ;
          rl = (if \<not> is_def \<and> \<not> is_decl \<and> getKindOf D \<in> {CXXConstructor, CXXConversion}
                then ucast (occ_Roles occ) OR Role_Implicit else ucast (occ_Roles occ));
          d1 = withFunc u (\<lambda>e. do_def_decl (index_comments env) occ is_def is_decl loc rl lid SemDC
                                  (e\<lparr>def := (def e)\<lparr>kind := ls_kind\<rparr>\<rparr>)) d
      in case macro_use env occ u Func d1 of
           None \<Rightarrow> None
         | Some d2 \<Rightarrow>
            (let d3 = withFunc u (\<lambda>e. if detailed_name (def e) = []
                        then e\<lparr>def := apply_NameResult
                                (occ_setName_D occ (short_name info) (qualified_name info)) (def e)\<rparr>
                        else e) d2
             in if is_def \<or> is_decl
                then (if fst (getKind SemDC ls_kind) = Type
                      then (case getUsr env SemDC p of
                              ((u1, i1), p1) \<Rightarrow>
                                Some (withType u1 (\<lambda>e. e\<lparr>def := (def e)\<lparr>funcs := funcs (def e) @ [u]\<rparr>\<rparr>) d3,
                                      p1))
                      else Some (d3, p))
                else (if fst (getKind LexDC ls_kind) = Func
                      then (case getUsr env LexDC p of
                              ((u1, i1), p1) \<Rightarrow>
                                Some (withFunc u1 (\<lambda>e. e\<lparr>def := (def e)\<lparr>callees := callees (def e)
                                        @ [\<lparr> sym_range = loc, sym_usr = u, sym_kind = Func,
                                             sym_role = rl \<rparr>]\<rparr>\<rparr>) d3,
                                      p1))
                      else Some (d3, p))))"

definition occ_Type ::
  "Env \<Rightarrow> Occurrence \<Rightarrow> Decl \<Rightarrow> Usr \<Rightarrow> DeclInfo \<Rightarrow> SymbolKind \<Rightarrow> int \<Rightarrow> Decl
    \<Rightarrow> IndexFile \<times> IndexParam \<Rightarrow> (IndexFile \<times> IndexParam) option" where
  "occ_Type env occ D u info ls_kind lid SemDC s =
     (case s of (d, p) \<Rightarrow>
      let is_def = is_def_of occ; is_decl = is_decl_of occ; loc = narrowed_loc occ;
          d1 = withType u (\<lambda>e. do_def_decl (index_comments env) occ is_def is_decl loc
                                  (ucast (occ_Roles occ)) lid SemDC
                                  (e\<lparr>def := (def e)\<lparr>kind := ls_kind\<rparr>\<rparr>)) d
      in case macro_use env occ u Type d1 of
           None \<Rightarrow> None
         | Some d2 \<Rightarrow>
            (let d3 = withType u (\<lambda>e. if (is_def \<or> detailed_name (def e) = []) \<and> short_name info \<noteq> []
                        then (if getKindOf D = TemplateTypeParm
                              then e\<lparr>def := (def e)\<lparr>detailed_name := short_name info\<rparr>\<rparr>
                              else e\<lparr>def := apply_NameResult
                                     (occ_setName_OrigD occ (short_name info) (qualified_name info))
                                     (def e)\<rparr>)
                        else e) d2
             in if (is_def \<or> is_decl) \<and> fst (getKind SemDC ls_kind) = Type
                then (case getUsr env SemDC p of
                        ((u1, i1), p1) \<Rightarrow>
                          Some (withType u1 (\<lambda>e. e\<lparr>def := (def e)\<lparr>types := types (def e) @ [u]\<rparr>\<rparr>) d3,
                                p1))
                else Some (d3, p)))"

text \<open>The type of a variable: \<^verbatim>\<open>var->def.type\<close> and the back edge on the type entity.\<close>

definition link_var_type ::
  "Env \<Rightarrow> Decl \<Rightarrow> Usr \<Rightarrow> IndexFile \<times> IndexParam \<Rightarrow> IndexFile \<times> IndexParam" where
  "link_var_type env D u s =
     (case s of (d, p) \<Rightarrow>
      (case getType D of
         NullType \<Rightarrow> (d, p)
       | BuiltinType usr1 \<Rightarrow>
           (let d1 = withVar u (\<lambda>e. e\<lparr>def := (def e)\<lparr>var_type := usr1\<rparr>\<rparr>) d
            in if getKindOf D \<noteq> EnumConstant
               then (withType usr1 (\<lambda>e. e\<lparr>instances := instances e @ [u]\<rparr>) d1, p)
               else (d1, p))
       | OtherType td sp \<Rightarrow>
           (case (case td of None \<Rightarrow> None | Some t \<Rightarrow> getAdjustedDecl t) of
              None \<Rightarrow> (d, p)
            | Some D1 \<Rightarrow>
                (case getUsr env D1 p of
                   ((usr1, i1), p1) \<Rightarrow>
                     (let d1 = withVar u (\<lambda>e. e\<lparr>def := (def e)\<lparr>var_type := usr1\<rparr>\<rparr>) d
                      in if getKindOf D \<noteq> EnumConstant
                         then (withType usr1 (\<lambda>e. e\<lparr>instances := instances e @ [u]\<rparr>) d1, p1)
                         else (d1, p1))))))"

definition occ_Var ::
  "Env \<Rightarrow> Occurrence \<Rightarrow> Decl \<Rightarrow> Usr \<Rightarrow> DeclInfo \<Rightarrow> SymbolKind \<Rightarrow> int \<Rightarrow> Decl
    \<Rightarrow> IndexFile \<times> IndexParam \<Rightarrow> (IndexFile \<times> IndexParam) option" where
  "occ_Var env occ D u info ls_kind lid SemDC s =
     (case s of (d, p) \<Rightarrow>
      let is_def = is_def_of occ; is_decl = is_decl_of occ; loc = narrowed_loc occ;
          d1 = withVar u (\<lambda>e. do_def_decl (index_comments env) occ is_def is_decl loc
                                 (ucast (occ_Roles occ)) lid SemDC
                                 (e\<lparr>def := (def e)\<lparr>kind := ls_kind\<rparr>\<rparr>)) d
      in case macro_use env occ u Var d1 of
           None \<Rightarrow> None
         | Some d2 \<Rightarrow>
            (let d3 = withVar u (\<lambda>e. if detailed_name (def e) = []
                        then e\<lparr>def := apply_VarNameResult
                                (occ_setVarName occ (short_name info) (qualified_name info)) (def e)\<rparr>
                        else e) d2
             in if is_def \<or> is_decl
                then (let pk = parent_kind (def (fst (toVar u d3)));
                          d4 = withVar u (\<lambda>e. e\<lparr>def := (def e)\<lparr>parent_kind :=
                                  snd (getKind SemDC (parent_kind (def e)))\<rparr>\<rparr>) d3;
                          s5 = (if fst (getKind SemDC pk) = Func
                                then (case getUsr env SemDC p of
                                        ((u1, i1), p1) \<Rightarrow>
                                          (withFunc u1 (\<lambda>e. e\<lparr>def := (def e)\<lparr>func_vars :=
                                              func_vars (def e) @ [u]\<rparr>\<rparr>) d4, p1))
                                else if fst (getKind SemDC pk) = Type \<and> \<not> isRecordDecl SemDC
                                then (case getUsr env SemDC p of
                                        ((u1, i1), p1) \<Rightarrow>
                                          (withType u1 (\<lambda>e. e\<lparr>def := (def e)\<lparr>vars :=
                                              vars (def e) @ [(u, - 1)]\<rparr>\<rparr>) d4, p1))
                                else (d4, p))
                      in Some (link_var_type env D u s5))
                else (let v = fst (toVar u d3)
                      in if spell (def v) = None \<and> declarations v = []
                            \<and> occ_D_Location_fid occ = occ_fid occ
                         then Some (withVar u (\<lambda>e. e\<lparr>def := (def e)\<lparr>spell :=
                                  Some \<lparr> use_range = occ_D_Location_range occ,
                                         use_role = Role_Definition, file_id = lid,
                                         extent = occ_D_SourceRange occ \<rparr>,
                                  parent_kind := Method\<rparr>\<rparr>) d3, p)
                         else Some (d3, p))))"

text \<open>
  The second switch, on the category of the (adjusted) node. \<open>k\<close> is the storage kind
  found for the node the event came with: the pointer \<^verbatim>\<open>type\<close> (\<^verbatim>\<open>func\<close>, \<^verbatim>\<open>var\<close>) is
  null unless \<open>k\<close> is Type (Func, Var); a write through a null pointer is None.
\<close>

definition link_base ::
  "Env \<Rightarrow> Usr \<Rightarrow> Decl \<Rightarrow> IndexFile \<times> IndexParam \<Rightarrow> IndexFile \<times> IndexParam" where
  "link_base env u D1 s =
     (case s of (d, p) \<Rightarrow>
      (case getUsr env D1 p of
         ((usr1, i1), p1) \<Rightarrow>
           (withType usr1 (\<lambda>e. e\<lparr>derived := derived e @ [u]\<rparr>)
              (withType u (\<lambda>e. e\<lparr>def := (def e)\<lparr>bases := bases (def e) @ [usr1]\<rparr>\<rparr>) d),
            p1)))"

definition typeDeclOf :: "TypeRef \<Rightarrow> Decl option" where
  "typeDeclOf T = (case T of OtherType (Some t) sp \<Rightarrow> getAdjustedDecl t | _ \<Rightarrow> None)"

definition is_specialization :: "TypeRef \<Rightarrow> bool" where
  "is_specialization T = (case T of OtherType td sp \<Rightarrow> sp | _ \<Rightarrow> False)"

definition link_cxx_bases ::
  "Env \<Rightarrow> Usr \<Rightarrow> TypeRef list \<Rightarrow> IndexFile \<times> IndexParam \<Rightarrow> IndexFile \<times> IndexParam" where
  "link_cxx_bases env u bs s =
     fold (\<lambda>B s'. case typeDeclOf B of Some BaseD \<Rightarrow> link_base env u BaseD s' | None \<Rightarrow> s') bs s"

definition collectRecordMembers ::
  "Env \<Rightarrow> Usr \<Rightarrow> (Decl \<times> int) list \<Rightarrow> IndexFile \<times> IndexParam \<Rightarrow> IndexFile \<times> IndexParam" where
  "collectRecordMembers env u members s =
     fold (\<lambda>(FD, offset1) (d, p).
             case getUsr env FD p of
               ((usr1, i1), p1) \<Rightarrow>
                 (withType u (\<lambda>e. e\<lparr>def := (def e)\<lparr>vars := vars (def e) @ [(usr1, offset1)]\<rparr>\<rparr>) d,
                  p1))
          members s"

definition tag_name :: "TagKind \<Rightarrow> string" where
  "tag_name t = (case t of TTK_Struct \<Rightarrow> ''struct'' | TTK_Interface \<Rightarrow> ''__interface''
                 | TTK_Union \<Rightarrow> ''union'' | TTK_Class \<Rightarrow> ''class'' | TTK_Enum \<Rightarrow> ''enum'')"

definition record_relations ::
  "Env \<Rightarrow> Occurrence \<Rightarrow> Decl \<Rightarrow> Usr \<Rightarrow> DeclInfo \<Rightarrow> IndexFile \<times> IndexParam
    \<Rightarrow> IndexFile \<times> IndexParam" where
  "record_relations env occ D u info s =
     (case s of (d, p) \<Rightarrow>
      let nm = (case getTypedefNameForAnonDecl (attrs D) of
                  Some Name \<Rightarrow> ''anon '' @ tag_name (getTagKind (attrs D)) @ '' '' @ Name
                | None \<Rightarrow> ''anon '' @ tag_name (getTagKind (attrs D)));
          d1 = withType u (\<lambda>e. if detailed_name (def e) = [] \<and> short_name info = []
                 then e\<lparr>def := (def e)\<lparr>detailed_name := nm, short_name_size := int (length nm)\<rparr>\<rparr>
                 else e) d
      in if is_def_of occ \<and> isRecordDecl (occ_OrigD occ)
         then collectRecordMembers env u (occ_members occ) (d1, p)
         else (d1, p))"

definition decimal_digit :: "nat \<Rightarrow> char" where
  "decimal_digit n = char_of (48 + n mod 10)"

fun to_string_nat :: "nat \<Rightarrow> string" where
  "to_string_nat n = (if n < 10 then [decimal_digit n]
                      else to_string_nat (n div 10) @ [decimal_digit n])"

declare to_string_nat.simps [simp del]

definition to_string :: "int \<Rightarrow> string" where
  "to_string i = (if i < 0 then CHR ''-'' # to_string_nat (nat (- i)) else to_string_nat (nat i))"

definition relations ::
  "Env \<Rightarrow> Occurrence \<Rightarrow> Decl \<Rightarrow> Usr \<Rightarrow> DeclInfo \<Rightarrow> Kind \<Rightarrow> int
    \<Rightarrow> IndexFile \<times> IndexParam \<Rightarrow> (IndexFile \<times> IndexParam) option" where
  "relations env occ D u info k lid s =
     (case s of (d, p) \<Rightarrow>
      let is_def = is_def_of occ; is_decl = is_decl_of occ
      in if getKindOf D = Namespace
         then (if isFirstDecl (attrs D)
               then (case getParent D of
                       None \<Rightarrow> None
                     | Some ND1 \<Rightarrow>
                         if getKindOf ND1 = Namespace
                         then (if k = Type then Some (link_base env u ND1 s) else None)
                         else Some s)
               else Some s)
         else if getKindOf D = NamespaceAlias
         then (case getNamespace D of
                 Some ND \<Rightarrow>
                   (case getUsr env ND p of
                      ((usr1, i1), p1) \<Rightarrow>
                        if k = Type
                        then Some (snd (toType usr1
                                     (withType u (\<lambda>e. e\<lparr>def := (def e)\<lparr>alias_of := usr1\<rparr>\<rparr>) d)), p1)
                        else None)
               | None \<Rightarrow> Some s)
         else if getKindOf D = CXXRecord \<or> getKindOf D = Record
         then (if k \<noteq> Type then None
               else Some (record_relations env occ D u info
                            (if getKindOf D = CXXRecord \<and> is_def \<and> hasDefinition (attrs D)
                             then link_cxx_bases env u (cxx_bases D) s else s)))
         else if getKindOf D = ClassTemplateSpecialization
                 \<or> getKindOf D = ClassTemplatePartialSpecialization
         then (if k \<noteq> Type then None
               else (let d1 = withType u (\<lambda>e. e\<lparr>def := (def e)\<lparr>kind := Class\<rparr>\<rparr>) d
                     in if is_def
                        then (let s2 = (if isRecordDecl (occ_OrigD occ)
                                        then collectRecordMembers env u (occ_members occ) (d1, p)
                                        else (d1, p));
                                  D1 = (if getKindOf D = ClassTemplatePartialSpecialization
                                        then getSpecializedTemplate D
                                        else getSpecializedTemplateOrPartial D)
                              in case D1 of
                                   Some D1' \<Rightarrow> Some (link_base env u D1' s2)
                                 | None \<Rightarrow> Some s2)
                        else Some (d1, p)))
         else if getKindOf D = TypeAlias \<or> getKindOf D = Typedef
         then (case typeDeclOf (getType D) of
                 Some D1 \<Rightarrow>
                   (case getUsr env D1 p of
                      ((usr1, i1), p1) \<Rightarrow>
                        if k \<noteq> Type then None
                        else (let d1 = withType u (\<lambda>e. e\<lparr>def := (def e)\<lparr>alias_of := usr1\<rparr>\<rparr>)
                                         (snd (toType usr1 d))
                              in if is_specialization (getType D)
                                    \<and> occ_TypeLoc_fid occ = occ_fid occ
                                 then Some (withType usr1
                                        (push_use \<lparr> use_range = occ_TypeLoc_range occ,
                                                    use_role = Role_Reference, file_id = lid \<rparr>) d1, p1)
                                 else Some (d1, p1)))
               | None \<Rightarrow> Some s)
         else if getKindOf D = CXXMethod
         then (if (is_def \<or> is_decl) \<and> namedDecl (attrs D) \<noteq> None
               then (if getOverriddenMethods D = [] then Some s
                     else if k \<noteq> Func then None
                     else Some (fold (\<lambda>ND1 (d', p').
                                   case getUsr env ND1 p' of
                                     ((usr1, i1), p1) \<Rightarrow>
                                       (withFunc usr1 (\<lambda>e. e\<lparr>derived := derived e @ [u]\<rparr>)
                                          (withFunc u (\<lambda>e. e\<lparr>def := (def e)\<lparr>func_bases :=
                                              func_bases (def e) @ [usr1]\<rparr>\<rparr>) d'),
                                        p1))
                                 (getOverriddenMethods D) s))
               else Some s)
         else if getKindOf D = EnumConstant
         then (if is_def
               then (if k \<noteq> Var then None
                     else Some (withVar u (\<lambda>e. if CHR ''='' \<notin> set (detailed_name (def e))
                                  then e\<lparr>def := (def e)\<lparr>hover := detailed_name (def e) @ '' = ''
                                            @ to_string (getInitVal (attrs D))\<rparr>\<rparr>
                                  else e) d, p))
               else Some s)
         else Some s)"

text \<open>
  \<^verbatim>\<open>handleDeclOccurence\<close>. \<open>occurrence_body\<close> is the part after the index \<^verbatim>\<open>db\<close> has been
  chosen; \<open>target\<close> is the handle whose staged file owns \<^verbatim>\<open>db\<close>, and the index is stored
  back under it. The handler always returns true to the engine; the result here is the
  new state of the pass, or None for a write through a null pointer.
\<close>

definition store_db :: "FileID \<Rightarrow> IndexFile \<times> IndexParam \<Rightarrow> IndexParam" where
  "store_db target s = (case s of (d, p) \<Rightarrow> update_db target (\<lambda>old. d) p)"

definition occurrence_body ::
  "Env \<Rightarrow> Occurrence \<Rightarrow> int \<Rightarrow> FileID \<Rightarrow> IndexFile \<Rightarrow> IndexParam \<Rightarrow> IndexParam option" where
  "occurrence_body env occ lid target d p =
     (case Option.bind (getRedeclContext (occ_OrigD occ)) skipAnonymousNamespaces of
        None \<Rightarrow> None
      | Some SemDC \<Rightarrow>
     (case skipAnonymousNamespaces (occ_ContainerDC occ) of
        None \<Rightarrow> None
      | Some LexDC \<Rightarrow>
     (let d1 = d\<lparr>language := language d OR LanguageId_int (getDeclLanguage (occ_D occ))\<rparr>;
          k = fst (getKind (occ_D occ) Unknown);
          ls_kind = snd (getKind (occ_D occ) Unknown);
          D = adjusted_D occ
      in case getUsr env D p of
           ((u, info), p1) \<Rightarrow>
             (case k of
                Invalid \<Rightarrow> Some (store_db target (d1, p1))
              | File \<Rightarrow> Some (store_db target (d1, p1))
              | Func \<Rightarrow>
                  map_option (store_db target)
                    (Option.bind (occ_Func env occ D u info ls_kind lid SemDC LexDC (d1, p1))
                       (relations env occ D u info k lid))
              | Type \<Rightarrow>
                  map_option (store_db target)
                    (Option.bind (occ_Type env occ D u info ls_kind lid SemDC (d1, p1))
                       (relations env occ D u info k lid))
              | Var \<Rightarrow>
                  map_option (store_db target)
                    (Option.bind (occ_Var env occ D u info ls_kind lid SemDC (d1, p1))
                       (relations env occ D u info k lid))))))"

definition handleDeclOccurence :: "Env \<Rightarrow> Occurrence \<Rightarrow> IndexParam \<Rightarrow> IndexParam option" where
  "handleDeclOccurence env occ p =
     (if \<not> param_no_linkage p
         \<and> \<not> (namedDecl (attrs (occ_D occ)) \<noteq> None \<and> hasLinkage (attrs (occ_D occ)))
      then Some p
      else if occ_fid occ = 0 then Some p
      else (case (if multiVersion env \<noteq> 0 then useMultiVersion env (occ_fid occ) p
                  else (False, p)) of
              (mv, p1) \<Rightarrow>
                if mv
                then (case consumeFile env (getMainFileID env) p1 of
                        (None, p2) \<Rightarrow> Some p2
                      | (Some d, p2) \<Rightarrow>
                          (case (if \<not> occ_isWrittenInMainFile occ
                                 then getFileLID env (occ_fid occ) d else (- 1, d)) of
                             (lid, d') \<Rightarrow>
                               occurrence_body env occ lid (getMainFileID env) d'
                                 (seenFile env (occ_fid occ) p2)))
                else (case consumeFile env (occ_fid occ) p1 of
                        (None, p2) \<Rightarrow> Some p2
                      | (Some d, p2) \<Rightarrow> occurrence_body env occ (- 1) (occ_fid occ) d p2)))"

subsection \<open>The preprocessor callbacks\<close>

text \<open>
  A macro event carries the spelling of the macro, the handle and the range of the
  location, the extent of the definition and (\<open>mac_source\<close>) the text that
  \<^verbatim>\<open>getSourceInRange\<close> reads for the definition.
\<close>

record MacroEvent =
  mac_Name :: string
  mac_fid :: FileID
  mac_range :: Range
  mac_extent :: Range
  mac_source :: string

definition getMacro :: "Env \<Rightarrow> string \<Rightarrow> string \<times> Usr" where
  "getMacro env Name = (Name, hashUsr env (''@macro@'' @ Name))"

text \<open>
  The comparison \<^verbatim>\<open>Buf.count('\n') <= maxInitializerLines - 1\<close> is between a \<^verbatim>\<open>size_t\<close>
  and an \<^verbatim>\<open>int\<close>: the right-hand side is converted to 64 bits unsigned.
\<close>

definition within_max_lines :: "Env \<Rightarrow> string \<Rightarrow> bool" where
  "within_max_lines env Buf \<longleftrightarrow>
     int (count_list Buf (CHR 0x0A)) \<le> (maxInitializerLines env - 1) mod 2 ^ 64"

definition MacroDefined_var :: "Env \<Rightarrow> MacroEvent \<Rightarrow> IndexVar \<Rightarrow> IndexVar" where
  "MacroDefined_var env ev var =
     (let v1 = var\<lparr>def := (def var)\<lparr>kind := Macro, parent_kind := SK_File\<rparr>\<rparr>;
          v2 = (case spell (def v1) of
                  Some sp \<Rightarrow> v1\<lparr>declarations := declarations v1 @ [sp]\<rparr>
                | None \<Rightarrow> v1);
          v3 = v2\<lparr>def := (def v2)\<lparr>spell :=
                 Some \<lparr> use_range = mac_range ev, use_role = Role_Definition, file_id = - 1,
                        extent = mac_extent ev \<rparr>\<rparr>\<rparr>
      in if detailed_name (def v3) = []
         then v3\<lparr>def := (def v3)\<lparr>detailed_name := mac_Name ev,
                  short_name_size := int (length (mac_Name ev)),
                  hover := (if within_max_lines env (mac_source ev)
                            then ''#define '' @ mac_source ev
                            else ''#define '' @ mac_Name ev)\<rparr>\<rparr>
         else v3)"

definition MacroDefined :: "Env \<Rightarrow> MacroEvent \<Rightarrow> IndexParam \<Rightarrow> IndexParam" where
  "MacroDefined env ev p =
     (case consumeFile env (mac_fid ev) p of
        (Some d, p1) \<Rightarrow>
          store_db (mac_fid ev)
            (withVar (snd (getMacro env (mac_Name ev))) (MacroDefined_var env ev) d, p1)
      | (None, p1) \<Rightarrow> p1)"

definition MacroExpands :: "Env \<Rightarrow> string \<Rightarrow> FileID \<Rightarrow> Range \<Rightarrow> IndexParam \<Rightarrow> IndexParam" where
  "MacroExpands env tok fid r p =
     (case consumeFile env fid p of
        (Some d, p1) \<Rightarrow>
          store_db fid
            (withVar (snd (getMacro env tok))
               (push_use \<lparr> use_range = r, use_role = Role_Dynamic, file_id = - 1 \<rparr>) d, p1)
      | (None, p1) \<Rightarrow> p1)"

definition MacroUndefined ::
  "Env \<Rightarrow> string \<Rightarrow> (FileID \<times> Range) option \<Rightarrow> IndexParam \<Rightarrow> IndexParam" where
  "MacroUndefined env tok ud p =
     (case ud of Some (fid, r) \<Rightarrow> MacroExpands env tok fid r p | None \<Rightarrow> p)"

definition FileChanged :: "Env \<Rightarrow> bool \<Rightarrow> FileID \<Rightarrow> IndexParam \<Rightarrow> IndexParam" where
  "FileChanged env enterFile fid p = (if enterFile then snd (consumeFile env fid p) else p)"

definition InclusionDirective ::
  "Env \<Rightarrow> FileEntry option \<Rightarrow> Range \<Rightarrow> FileID \<Rightarrow> IndexParam \<Rightarrow> IndexParam" where
  "InclusionDirective env file spl fid p =
     (case file of
        None \<Rightarrow> p
      | Some fe \<Rightarrow>
          (case consumeFile env fid p of
             (Some d, p1) \<Rightarrow>
               if pathFromFileEntry fe \<noteq> []
               then store_db fid
                      (d\<lparr>file_includes := file_includes d
                            @ [(line (start spl), pathFromFileEntry fe)]\<rparr>, p1)
               else p1
           | (None, p1) \<Rightarrow> p1))"

definition SourceRangeSkipped :: "Env \<Rightarrow> Range \<Rightarrow> FileID \<Rightarrow> IndexParam \<Rightarrow> IndexParam" where
  "SourceRangeSkipped env r fid p =
     (if fid \<noteq> 0
      then (case consumeFile env fid p of
              (Some d, p1) \<Rightarrow> store_db fid (d\<lparr>skipped_ranges := skipped_ranges d @ [r]\<rparr>, p1)
            | (None, p1) \<Rightarrow> p1)
      else p)"

definition shouldSkipFunctionBody :: "Env \<Rightarrow> FileID \<Rightarrow> IndexParam \<Rightarrow> bool \<times> IndexParam" where
  "shouldSkipFunctionBody env fid p =
     (case (if multiVersion env \<noteq> 0 then useMultiVersion env fid p else (False, p)) of
        (mv, p1) \<Rightarrow>
          if mv then (False, p1)
          else (case consumeFile env fid p1 of (d, p2) \<Rightarrow> (d = None, p2)))"

subsection \<open>The pass\<close>

text \<open>The calls that the engine makes into the consumers during one pass.\<close>

datatype Event =
    EvFileChanged bool FileID
  | EvInclusionDirective "FileEntry option" Range FileID
  | EvMacroDefined MacroEvent
  | EvMacroExpands string FileID Range
  | EvMacroUndefined string "(FileID \<times> Range) option"
  | EvSourceRangeSkipped Range FileID
  | EvShouldSkipFunctionBody FileID
  | EvDeclOccurence Occurrence

fun handle :: "Env \<Rightarrow> Event \<Rightarrow> IndexParam \<Rightarrow> IndexParam option" where
  "handle env (EvFileChanged enterFile fid) p = Some (FileChanged env enterFile fid p)"
| "handle env (EvInclusionDirective file spl fid) p = Some (InclusionDirective env file spl fid p)"
| "handle env (EvMacroDefined ev) p = Some (MacroDefined env ev p)"
| "handle env (EvMacroExpands tok fid r) p = Some (MacroExpands env tok fid r p)"
| "handle env (EvMacroUndefined tok ud) p = Some (MacroUndefined env tok ud p)"
| "handle env (EvSourceRangeSkipped r fid) p = Some (SourceRangeSkipped env r fid p)"
| "handle env (EvShouldSkipFunctionBody fid) p = Some (snd (shouldSkipFunctionBody env fid p))"
| "handle env (EvDeclOccurence occ) p = handleDeclOccurence env occ p"

fun run_events :: "Env \<Rightarrow> Event list \<Rightarrow> IndexParam \<Rightarrow> IndexParam option" where
  "run_events env [] p = Some p"
| "run_events env (e # es) p =
     (case handle env e p of None \<Rightarrow> None | Some p' \<Rightarrow> run_events env es p')"

text \<open>
  The post-pass of \<^verbatim>\<open>idx::index\<close> for one entry. The hash map \<^verbatim>\<open>uid2file\<close> is iterated in
  an order that the source does not fix: \<open>order\<close> is the list of handles in that order.
\<close>

definition stamp_dependency :: "File \<Rightarrow> IndexFile \<Rightarrow> IndexFile" where
  "stamp_dependency file entry =
     (if path file = [] then entry
      else if path file = IndexFile.path entry then entry\<lparr>IndexFile.mtime := mtime file\<rparr>
      else if path file \<noteq> import_file entry
      then entry\<lparr>dependencies := (dependencies entry)(path file \<mapsto> mtime file)\<rparr>
      else entry)"

definition stamp_dependencies :: "(FileID \<rightharpoonup> File) \<Rightarrow> FileID list \<Rightarrow> IndexFile \<Rightarrow> IndexFile" where
  "stamp_dependencies u2f order entry =
     fold (\<lambda>fid e. case u2f fid of Some file \<Rightarrow> stamp_dependency file e | None \<Rightarrow> e) order entry"

definition uniquify_func :: "IndexFunc \<Rightarrow> IndexFunc" where
  "uniquify_func e = e\<lparr>derived := uniquify (derived e), uses := uniquify (uses e)\<rparr>"

definition uniquify_type :: "IndexType \<Rightarrow> IndexType" where
  "uniquify_type e =
     e\<lparr>derived := uniquify (derived e), uses := uniquify (uses e),
       def := (def e)\<lparr>bases := uniquify (bases (def e)), funcs := uniquify (funcs (def e))\<rparr>\<rparr>"

definition uniquify_var :: "IndexVar \<Rightarrow> IndexVar" where
  "uniquify_var e = e\<lparr>uses := uniquify (uses e)\<rparr>"

definition finalize_entry ::
  "string \<Rightarrow> string list \<Rightarrow> (FileID \<rightharpoonup> File) \<Rightarrow> FileID list \<Rightarrow> IndexFile \<Rightarrow> IndexFile" where
  "finalize_entry main as u2f order entry =
     stamp_dependencies u2f order
       (entry\<lparr>import_file := main, args := as,
          lid2path := lid2path entry @ map snd (uid2lid_and_path entry),
          uid2lid_and_path := [],
          usr2func := (\<lambda>k. map_option uniquify_func (usr2func entry k)),
          usr2type := (\<lambda>k. map_option uniquify_type (usr2type entry k)),
          usr2var := (\<lambda>k. map_option uniquify_var (usr2var entry k))\<rparr>)"

definition finalize :: "string \<Rightarrow> string list \<Rightarrow> FileID list \<Rightarrow> IndexParam \<Rightarrow> IndexFile list" where
  "finalize main as order p =
     concat (map (\<lambda>fid. case uid2file p fid of
                          Some file \<Rightarrow>
                            (case db file of
                               Some entry \<Rightarrow> [finalize_entry main as (uid2file p) order entry]
                             | None \<Rightarrow> [])
                        | None \<Rightarrow> [])
                 order)"

text \<open>
  \<^verbatim>\<open>idx::index\<close>. \<open>Run\<close> is what the engine does in this pass: whether the invocation
  could be built, whether the target could be created, whether the engine faults inside
  the crash recovery context, whether \<^verbatim>\<open>BeginSourceFile\<close> succeeds, the events it sends
  and the error of \<^verbatim>\<open>Execute\<close>, if any. A write through a null pointer in a handler is a
  fault inside the crash recovery context. The result is the collection and \<^verbatim>\<open>ok\<close>.
\<close>

record Run =
  buildCompilerInvocation :: bool
  hasTarget :: bool
  crashes :: bool
  BeginSourceFile :: bool
  events :: "Event list"
  Execute_error :: "string option"
  uid2file_order :: "FileID list"

definition index :: "Env \<Rightarrow> string \<Rightarrow> string list \<Rightarrow> bool \<Rightarrow> Run \<Rightarrow> IndexFile list \<times> bool" where
  "index env main as nl run =
     (if \<not> buildCompilerInvocation run then ([], True)
      else if \<not> hasTarget run then ([], False)
      else if crashes run then ([], False)
      else if \<not> BeginSourceFile run then ([], False)
      else (case run_events env (events run) (IndexParam_new nl) of
              None \<Rightarrow> ([], False)
            | Some p \<Rightarrow>
                (case Execute_error run of
                   Some reason \<Rightarrow> ([], False)
                 | None \<Rightarrow> (finalize main as (uid2file_order run) p, True))))"

subsection \<open>Invariants of a pass\<close>

text \<open>
  \<open>keys_ok\<close>: every entity is stored under its own key. \<open>same_file\<close> relates an index
  before and after a handler worked on it: the handlers leave the path and the dependency
  map alone and keep \<open>keys_ok\<close>.
\<close>

definition keys_ok :: "IndexFile \<Rightarrow> bool" where
  "keys_ok d \<longleftrightarrow>
     (\<forall>k e. usr2func d k = Some e \<longrightarrow> usr e = k)
     \<and> (\<forall>k e. usr2type d k = Some e \<longrightarrow> usr e = k)
     \<and> (\<forall>k e. usr2var d k = Some e \<longrightarrow> usr e = k)"

definition same_file :: "IndexFile \<Rightarrow> IndexFile \<Rightarrow> bool" where
  "same_file d d' \<longleftrightarrow>
     IndexFile.path d' = IndexFile.path d \<and> dependencies d' = dependencies d
     \<and> (keys_ok d \<longrightarrow> keys_ok d')"

text \<open>
  \<open>cache_ok\<close>: the canonical nodes rendered so far are the keys of the identity cache,
  each rendered once. \<open>cache_ext\<close> relates the pass state before and after calls of
  \<^verbatim>\<open>getUsr\<close>: only the cache grows.
\<close>

definition cache_ok :: "IndexParam \<Rightarrow> bool" where
  "cache_ok p \<longleftrightarrow> distinct (rendered p) \<and> set (rendered p) = dom (Decl2Info p)"

definition cache_ext :: "IndexParam \<Rightarrow> IndexParam \<Rightarrow> bool" where
  "cache_ext p p' \<longleftrightarrow>
     uid2file p' = uid2file p \<and> uid2multi p' = uid2multi p
     \<and> param_no_linkage p' = param_no_linkage p \<and> vfs_calls p' = vfs_calls p
     \<and> (\<forall>c i. Decl2Info p c = Some i \<longrightarrow> Decl2Info p' c = Some i)
     \<and> (cache_ok p \<longrightarrow> cache_ok p')"

text \<open>
  \<open>pass_ok\<close>: the invariant of the state of a pass.
  \<^item> the index of a staged file has the file's path, no dependencies yet, and \<open>keys_ok\<close>;
  \<^item> the staleness cache was called at most once for a handle, with the path and the time
    of the staged file and the mode of the pass, and it was called for every staged handle
    that has a file entry;
  \<^item> \<open>cache_ok\<close>.
\<close>

definition staged_ok :: "IndexParam \<Rightarrow> bool" where
  "staged_ok p \<longleftrightarrow>
     (\<forall>fid file d. uid2file p fid = Some file \<longrightarrow> db file = Some d \<longrightarrow>
        IndexFile.path d = path file \<and> dependencies d = Map.empty \<and> keys_ok d)"

definition stamps_ok :: "Env \<Rightarrow> IndexParam \<Rightarrow> bool" where
  "stamps_ok env p \<longleftrightarrow>
     distinct (map fst (vfs_calls p))
     \<and> (\<forall>c \<in> set (vfs_calls p).
           snd (snd (snd c)) = (if param_no_linkage p then 3 else 1)
           \<and> (\<exists>fe file. getFileEntryForID env (fst c) = Some fe
                \<and> fst (snd c) = pathFromFileEntry fe
                \<and> uid2file p (fst c) = Some file
                \<and> path file = fst (snd c) \<and> mtime file = fst (snd (snd c))))
     \<and> (\<forall>fid file. uid2file p fid = Some file \<longrightarrow> getFileEntryForID env fid \<noteq> None \<longrightarrow>
           fid \<in> fst ` set (vfs_calls p))"

definition pass_ok :: "Env \<Rightarrow> IndexParam \<Rightarrow> bool" where
  "pass_ok env p \<longleftrightarrow> staged_ok p \<and> stamps_ok env p \<and> cache_ok p"

text \<open>
  \<open>pass_ext\<close>: what every handler keeps of the state it starts from: the mode, the
  entries of the identity cache, the calls made to the staleness cache, and for every
  staged file its path, its time and the decision not to index it.
\<close>

definition pass_ext :: "IndexParam \<Rightarrow> IndexParam \<Rightarrow> bool" where
  "pass_ext p p' \<longleftrightarrow>
     param_no_linkage p' = param_no_linkage p
     \<and> (\<forall>c i. Decl2Info p c = Some i \<longrightarrow> Decl2Info p' c = Some i)
     \<and> (\<exists>new. vfs_calls p' = vfs_calls p @ new)
     \<and> (\<forall>fid file. uid2file p fid = Some file \<longrightarrow>
           (\<exists>file'. uid2file p' fid = Some file' \<and> path file' = path file
              \<and> mtime file' = mtime file \<and> (db file = None \<longrightarrow> db file' = None)
              \<and> (db file \<noteq> None \<longrightarrow> db file' \<noteq> None)))"

text \<open>
  \<open>frame\<close> relates the state of a handler (the index it writes to and the pass state)
  before and after a part of the handler.
\<close>

definition frame :: "IndexFile \<times> IndexParam \<Rightarrow> IndexFile \<times> IndexParam \<Rightarrow> bool" where
  "frame s s' \<longleftrightarrow> same_file (fst s) (fst s') \<and> cache_ext (snd s) (snd s')"

text \<open>The modification time that \<^verbatim>\<open>seenFile\<close> records for a file entry.\<close>

definition staged_mtime :: "Env \<Rightarrow> FileEntry \<Rightarrow> int" where
  "staged_mtime env fe =
     (if getModificationTime fe = 0
      then (case lastWriteTime env (pathFromFileEntry fe) of
              Some tim \<Rightarrow> tim | None \<Rightarrow> getModificationTime fe)
      else getModificationTime fe)"

text \<open>
  \<open>macro_entity\<close> is the entity of a macro in the index of a staged file;
  \<open>var_record\<close> says which definition record and which declarations the variable
  entity of a key has in an index.
\<close>

definition macro_entity :: "Env \<Rightarrow> string \<Rightarrow> FileID \<Rightarrow> IndexParam \<Rightarrow> IndexVar option" where
  "macro_entity env Name fid p =
     Option.bind (Option.bind (uid2file p fid) db)
       (\<lambda>d. usr2var d (hashUsr env (''@macro@'' @ Name)))"

definition var_record :: "Usr \<Rightarrow> DeclRef option \<Rightarrow> DeclRef list \<Rightarrow> IndexFile \<Rightarrow> bool" where
  "var_record u sp ds d \<longleftrightarrow>
     (\<exists>v. usr2var d u = Some v \<and> spell (def v) = sp \<and> declarations v = ds)"

subsection \<open>An example environment\<close>

text \<open>
  Handles 1 and 2 are the files \<^verbatim>\<open>/a.cc\<close> and \<^verbatim>\<open>/a.h\<close>, every other handle has no file
  entry; the staleness cache asks for every file except \<^verbatim>\<open>/a.h\<close> to be indexed; no
  multi-version files; five initializer lines.
\<close>

definition example_env :: Env where
  "example_env =
     \<lparr> getFileEntryForID = (\<lambda>fid.
         if fid = 1 then Some \<lparr> pathFromFileEntry = ''/a.cc'', getModificationTime = 5,
                                absolutePath = Some ''/a.cc'' \<rparr>
         else if fid = 2 then Some \<lparr> pathFromFileEntry = ''/a.h'', getModificationTime = 7,
                                absolutePath = Some ''/a.h'' \<rparr>
         else None),
       lastWriteTime = (\<lambda>pa. None),
       readContent = (\<lambda>pa. None),
       vfs_stamp = (\<lambda>calls pa mt mode. pa \<noteq> ''/a.h''),
       matches = (\<lambda>pa. False),
       hashUsr = (\<lambda>s. of_nat (length s)),
       getMainFileID = 1,
       multiVersion = 0,
       index_comments = 2,
       maxInitializerLines = 5 \<rparr>"

definition example_Range :: "int \<Rightarrow> int \<Rightarrow> int \<Rightarrow> Range" where
  "example_Range l c1 c2 =
     \<lparr> start = \<lparr> line = l, column = c1 \<rparr>, finish = \<lparr> line = l, column = c2 \<rparr> \<rparr>"

definition example_File1 :: File where
  "example_File1 = \<lparr> path = ''/a.cc'', mtime = 5, content = [],
                      db = Some (IndexFile_new ''/a.cc'' [] False) \<rparr>"

definition example_File2 :: File where
  "example_File2 = \<lparr> path = ''/a.h'', mtime = 7, content = [], db = None \<rparr>"

definition example_Param :: IndexParam where
  "example_Param =
     \<lparr> uid2file = [1 \<mapsto> example_File1, 2 \<mapsto> example_File2], uid2multi = Map.empty,
       Decl2Info = Map.empty, param_no_linkage = False,
       vfs_calls = [(1, ''/a.cc'', 5, 1), (2, ''/a.h'', 7, 1)], rendered = [] \<rparr>"

definition example_Run :: "bool \<Rightarrow> bool \<Rightarrow> string option \<Rightarrow> Run" where
  "example_Run built crash err =
     \<lparr> buildCompilerInvocation = built, hasTarget = True, crashes = crash,
       BeginSourceFile = True, events = [EvFileChanged True 1, EvFileChanged True 2],
       Execute_error = err, uid2file_order = [2, 1] \<rparr>"

text \<open>
  Example events: definitions of a macro FOO in \<^verbatim>\<open>/a.cc\<close>, and the declaration of a
  structured binding \<open>x\<close> in a function \<open>f\<close>.
\<close>

definition example_MacroEvent :: "string \<Rightarrow> MacroEvent" where
  "example_MacroEvent src =
     \<lparr> mac_Name = ''FOO'', mac_fid = 1, mac_range = example_Range 3 8 11,
       mac_extent = example_Range 3 8 20, mac_source = src \<rparr>"

definition example_long_source :: string where
  "example_long_source = ''FOO(x) '' @ [CHR 0x5C, CHR 0x0A] @ ''  ((x) + 1)''"

definition example_Binding :: Decl where
  "example_Binding =
     Decl (simpleAttrs Binding 9 ''c:@F@f#@x'' (Some (''x'', ''x'')))
       (Some (simpleDecl Function 8 ''c:@F@f#'' (Some (''f'', ''f''))))
       None None None None None NullType [] []"

definition example_Occurrence :: Occurrence where
  "example_Occurrence =
     \<lparr> occ_D = example_Binding, occ_Roles = 1, occ_OrigD = example_Binding,
       occ_ContainerDC = simpleDecl Function 8 ''c:@F@f#'' (Some (''f'', ''f'')),
       occ_fid = 1, occ_loc = example_Range 4 8 9, occ_Loc_isFileID = True,
       occ_Spell_ne_Loc = False, occ_Spell_fid = 1, occ_Spell_range = example_Range 4 8 9,
       occ_isWrittenInMainFile = True, occ_NameInfo_range = None,
       occ_extent = example_Range 4 8 9, occ_getComment = [],
       occ_setName_D = (\<lambda>s q. \<lparr> nr_detailed_name = q, nr_qual_name_offset = 0,
                                 nr_short_name_offset = 0, nr_short_name_size = int (length s) \<rparr>),
       occ_setName_OrigD = (\<lambda>s q. \<lparr> nr_detailed_name = q, nr_qual_name_offset = 0,
                                 nr_short_name_offset = 0, nr_short_name_size = int (length s) \<rparr>),
       occ_setVarName = (\<lambda>s q. \<lparr> nr_detailed_name = ''int '' @ q, nr_qual_name_offset = 4,
                                 nr_short_name_offset = 4, nr_short_name_size = int (length s),
                                 nr_storage = None, nr_hover = None \<rparr>),
       occ_members = [], occ_D_Location_fid = 1, occ_D_Location_range = example_Range 4 8 9,
       occ_D_SourceRange = example_Range 4 8 9, occ_TypeLoc_fid = 1,
       occ_TypeLoc_range = example_Range 4 3 6 \<rparr>"

text \<open>
  The same binding as a local variable without linkage, and an environment in which
  \<^verbatim>\<open>/a.h\<close> is a multi-version file.
\<close>

definition example_local_Binding :: Decl where
  "example_local_Binding =
     Decl ((simpleAttrs Binding 9 ''c:@F@f#@x'' (Some (''x'', ''x'')))\<lparr>hasLinkage := False\<rparr>)
       (Some (simpleDecl Function 8 ''c:@F@f#'' (Some (''f'', ''f''))))
       None None None None None NullType [] []"

definition example_env_multi :: Env where
  "example_env_multi = example_env\<lparr>multiVersion := 1, matches := (\<lambda>pa. pa = ''/a.h'')\<rparr>"

subsection \<open>The serializer\<close>

text \<open>
  The C library, as the readers and writers use it. A \<^verbatim>\<open>char *\<close> into a C string is the
  rest of the string from that position. \<^verbatim>\<open>strtol\<close> and \<^verbatim>\<open>strtoull\<close> in base 10 skip
  white space, read an optional sign and the digits, and give the value (clamped to the
  range of \<^verbatim>\<open>long\<close>, of \<^verbatim>\<open>unsigned long long\<close>; a negated value wraps in the unsigned
  case) and the position after the digits; without a digit they give 0 and the position
  they started from. \<^verbatim>\<open>snprintf\<close> into \<^verbatim>\<open>char buf[99]\<close> keeps the first 98 characters.
\<close>

definition isspace :: "char \<Rightarrow> bool" where
  "isspace c \<longleftrightarrow> c = CHR '' '' \<or> (9 \<le> (of_char c :: nat) \<and> (of_char c :: nat) \<le> 13)"

definition isdigit :: "char \<Rightarrow> bool" where
  "isdigit c \<longleftrightarrow> 48 \<le> (of_char c :: nat) \<and> (of_char c :: nat) \<le> 57"

definition digits_value :: "string \<Rightarrow> nat" where
  "digits_value ds = foldl (\<lambda>acc c. 10 * acc + (of_char c - 48)) 0 ds"

definition read_sign :: "string \<Rightarrow> bool \<times> string" where
  "read_sign s = (case s of
                    [] \<Rightarrow> (False, s)
                  | c # r \<Rightarrow> if c = CHR ''-'' then (True, r)
                            else if c = CHR ''+'' then (False, r) else (False, s))"

definition strtol :: "string \<Rightarrow> int \<times> string" where
  "strtol s =
     (case read_sign (dropWhile isspace s) of
        (neg, s2) \<Rightarrow>
          if takeWhile isdigit s2 = [] then (0, s)
          else (max (- (2 ^ 63))
                  (min (2 ^ 63 - 1)
                     (if neg then - int (digits_value (takeWhile isdigit s2))
                      else int (digits_value (takeWhile isdigit s2)))),
                dropWhile isdigit s2))"

definition strtoull :: "string \<Rightarrow> nat \<times> string" where
  "strtoull s =
     (case read_sign (dropWhile isspace s) of
        (neg, s2) \<Rightarrow>
          if takeWhile isdigit s2 = [] then (0, s)
          else ((if digits_value (takeWhile isdigit s2) \<ge> 2 ^ 64 then 2 ^ 64 - 1
                 else if neg then (2 ^ 64 - digits_value (takeWhile isdigit s2)) mod 2 ^ 64
                 else digits_value (takeWhile isdigit s2)),
                dropWhile isdigit s2))"

definition strchr :: "string \<Rightarrow> char \<Rightarrow> string option" where
  "strchr s c = (if c \<in> set s then Some (dropWhile (\<lambda>x. x \<noteq> c) s) else None)"

text \<open>\<^verbatim>\<open>s + 1\<close>, to be read from: None when \<open>s\<close> is at the end of the string.\<close>

definition plus1 :: "string \<Rightarrow> string option" where
  "plus1 s = (case s of [] \<Rightarrow> None | c # r \<Rightarrow> Some r)"

definition snprintf99 :: "string \<Rightarrow> string" where
  "snprintf99 s = take 98 s"

text \<open>What follows a number in the text: the end of the string or a character that is no digit.\<close>

definition no_digit_next :: "string \<Rightarrow> bool" where
  "no_digit_next rest \<longleftrightarrow> (case rest of [] \<Rightarrow> True | c # r \<Rightarrow> \<not> isdigit c)"

text \<open>
  The storage kind is an enumeration over a byte. The numbers of its enumerators are
  declared outside the source file: they are the argument \<open>kind_number\<close>. The cast to
  a kind keeps the low byte; a byte that is the number of no enumerator has no value in
  this model.
\<close>

definition Kind_of_long :: "(Kind \<Rightarrow> 8 word) \<Rightarrow> int \<Rightarrow> Kind option" where
  "Kind_of_long kind_number i =
     List.find (\<lambda>k. kind_number k = word_of_int i) [Invalid, File, Type, Func, Var]"

text \<open>\<^verbatim>\<open>static_cast<int>\<close> of a \<^verbatim>\<open>long\<close>: the low 32 bits, signed.\<close>

definition int_of_long :: "int \<Rightarrow> int" where
  "int_of_long i = sint (word_of_int i :: 32 word)"

text \<open>
  The writers of the textual form. \<^verbatim>\<open>Range::toString\<close> and \<^verbatim>\<open>Range::fromString\<close> are
  not in the source file: they are the arguments \<open>toString\<close> and \<open>fromString\<close>. The
  result is the string handed to the JSON writer.
\<close>

definition reflect_JsonWriter_SymbolRef ::
  "(Range \<Rightarrow> string) \<Rightarrow> (Kind \<Rightarrow> 8 word) \<Rightarrow> SymbolRef \<Rightarrow> string" where
  "reflect_JsonWriter_SymbolRef toString kind_number v =
     snprintf99 (toString (sym_range v) @ ''|'' @ to_string_nat (unat (sym_usr v)) @ ''|''
                 @ to_string (uint (kind_number (sym_kind v))) @ ''|''
                 @ to_string (uint (sym_role v)))"

definition reflect_JsonWriter_Use :: "(Range \<Rightarrow> string) \<Rightarrow> Use \<Rightarrow> string" where
  "reflect_JsonWriter_Use toString v =
     snprintf99 (toString (use_range v) @ ''|'' @ to_string (uint (use_role v)) @ ''|''
                 @ to_string (file_id v))"

definition reflect_JsonWriter_DeclRef :: "(Range \<Rightarrow> string) \<Rightarrow> DeclRef \<Rightarrow> string" where
  "reflect_JsonWriter_DeclRef toString v =
     snprintf99 (toString (use_range v) @ ''|'' @ toString (extent v) @ ''|''
                 @ to_string (uint (use_role v)) @ ''|'' @ to_string (file_id v))"

text \<open>
  The readers of the textual form, from the string the JSON reader returns. None is a
  read through a null pointer or past the end of the string.
\<close>

definition reflect_JsonReader_SymbolRef ::
  "(string \<Rightarrow> Range) \<Rightarrow> (Kind \<Rightarrow> 8 word) \<Rightarrow> string \<Rightarrow> SymbolRef option" where
  "reflect_JsonReader_SymbolRef fromString kind_number t =
     (case Option.bind (strchr t (CHR ''|'')) plus1 of
        None \<Rightarrow> None
      | Some s1 \<Rightarrow>
     (case plus1 (snd (strtoull s1)) of
        None \<Rightarrow> None
      | Some s2 \<Rightarrow>
     (case plus1 (snd (strtol s2)) of
        None \<Rightarrow> None
      | Some s3 \<Rightarrow>
     (case Kind_of_long kind_number (fst (strtol s2)) of
        None \<Rightarrow> None
      | Some k \<Rightarrow>
          Some \<lparr> sym_range = fromString t, sym_usr = of_nat (fst (strtoull s1)),
                 sym_kind = k, sym_role = word_of_int (fst (strtol s3)) \<rparr>))))"

definition reflect_JsonReader_Use :: "(string \<Rightarrow> Range) \<Rightarrow> string \<Rightarrow> Use option" where
  "reflect_JsonReader_Use fromString t =
     (case Option.bind (strchr t (CHR ''|'')) plus1 of
        None \<Rightarrow> None
      | Some s1 \<Rightarrow>
     (case plus1 (snd (strtol s1)) of
        None \<Rightarrow> None
      | Some s2 \<Rightarrow>
          Some \<lparr> use_range = fromString t, use_role = word_of_int (fst (strtol s1)),
                 file_id = int_of_long (fst (strtol s2)) \<rparr>))"

definition reflect_JsonReader_DeclRef :: "(string \<Rightarrow> Range) \<Rightarrow> string \<Rightarrow> DeclRef option" where
  "reflect_JsonReader_DeclRef fromString t =
     (case Option.bind (strchr t (CHR ''|'')) plus1 of
        None \<Rightarrow> None
      | Some s0 \<Rightarrow>
     (case Option.bind (strchr s0 (CHR ''|'')) plus1 of
        None \<Rightarrow> None
      | Some s1 \<Rightarrow>
     (case plus1 (snd (strtol s1)) of
        None \<Rightarrow> None
      | Some s2 \<Rightarrow>
          Some \<lparr> use_range = fromString t, use_role = word_of_int (fst (strtol s1)),
                 file_id = int_of_long (fst (strtol s2)), extent = fromString s0 \<rparr>)))"

text \<open>
  The binary form. The readers and writers of the fields (\<^verbatim>\<open>reflect\<close> for a range, a
  symbol key, a kind, a role and an \<^verbatim>\<open>int\<close>) are not in the source file: \<open>Binary\<close> holds
  them. A writer appends bytes to the stream, a reader takes them from its front and
  fails (None) on a stream it cannot read.
\<close>

record Binary =
  put_Range :: "Range \<Rightarrow> 8 word list"
  get_Range :: "8 word list \<Rightarrow> (Range \<times> 8 word list) option"
  put_Usr :: "Usr \<Rightarrow> 8 word list"
  get_Usr :: "8 word list \<Rightarrow> (Usr \<times> 8 word list) option"
  put_Kind :: "Kind \<Rightarrow> 8 word list"
  get_Kind :: "8 word list \<Rightarrow> (Kind \<times> 8 word list) option"
  put_Role :: "Role \<Rightarrow> 8 word list"
  get_Role :: "8 word list \<Rightarrow> (Role \<times> 8 word list) option"
  put_int :: "int \<Rightarrow> 8 word list"
  get_int :: "8 word list \<Rightarrow> (int \<times> 8 word list) option"

definition reflect_BinaryWriter_SymbolRef :: "Binary \<Rightarrow> SymbolRef \<Rightarrow> 8 word list" where
  "reflect_BinaryWriter_SymbolRef B v =
     put_Range B (sym_range v) @ put_Usr B (sym_usr v) @ put_Kind B (sym_kind v)
     @ put_Role B (sym_role v)"

definition reflect_BinaryWriter_Use :: "Binary \<Rightarrow> ('a Use_scheme) \<Rightarrow> 8 word list" where
  "reflect_BinaryWriter_Use B v =
     put_Range B (use_range v) @ put_Role B (use_role v) @ put_int B (file_id v)"

definition reflect_BinaryWriter_DeclRef :: "Binary \<Rightarrow> DeclRef \<Rightarrow> 8 word list" where
  "reflect_BinaryWriter_DeclRef B v = reflect_BinaryWriter_Use B v @ put_Range B (extent v)"

definition reflect_BinaryReader_SymbolRef ::
  "Binary \<Rightarrow> 8 word list \<Rightarrow> (SymbolRef \<times> 8 word list) option" where
  "reflect_BinaryReader_SymbolRef B bs =
     (case get_Range B bs of None \<Rightarrow> None | Some (r, bs1) \<Rightarrow>
     (case get_Usr B bs1 of None \<Rightarrow> None | Some (u, bs2) \<Rightarrow>
     (case get_Kind B bs2 of None \<Rightarrow> None | Some (k, bs3) \<Rightarrow>
     (case get_Role B bs3 of None \<Rightarrow> None | Some (rl, bs4) \<Rightarrow>
        Some (\<lparr> sym_range = r, sym_usr = u, sym_kind = k, sym_role = rl \<rparr>, bs4)))))"

definition reflect_BinaryReader_Use ::
  "Binary \<Rightarrow> 8 word list \<Rightarrow> (Use \<times> 8 word list) option" where
  "reflect_BinaryReader_Use B bs =
     (case get_Range B bs of None \<Rightarrow> None | Some (r, bs1) \<Rightarrow>
     (case get_Role B bs1 of None \<Rightarrow> None | Some (rl, bs2) \<Rightarrow>
     (case get_int B bs2 of None \<Rightarrow> None | Some (fi, bs3) \<Rightarrow>
        Some (\<lparr> use_range = r, use_role = rl, file_id = fi \<rparr>, bs3))))"

definition reflect_BinaryReader_DeclRef ::
  "Binary \<Rightarrow> 8 word list \<Rightarrow> (DeclRef \<times> 8 word list) option" where
  "reflect_BinaryReader_DeclRef B bs =
     (case reflect_BinaryReader_Use B bs of None \<Rightarrow> None | Some (u, bs1) \<Rightarrow>
     (case get_Range B bs1 of None \<Rightarrow> None | Some (e, bs2) \<Rightarrow>
        Some (\<lparr> use_range = use_range u, use_role = use_role u, file_id = file_id u,
                 extent = e \<rparr>, bs2)))"

text \<open>
  What the round trip needs of the parts that are not in the source file: the text of a
  range has no \<^verbatim>\<open>|\<close>, is at most \<open>n\<close> characters long (so that the record fits the
  buffer of 99), and is read back whatever follows the \<^verbatim>\<open>|\<close> after it; a field of the
  binary form is read back from the front of any stream that starts with its bytes.
\<close>

definition range_text_ok ::
  "(Range \<Rightarrow> string) \<Rightarrow> (string \<Rightarrow> Range) \<Rightarrow> nat \<Rightarrow> Range \<Rightarrow> bool" where
  "range_text_ok toString fromString n r \<longleftrightarrow>
     CHR ''|'' \<notin> set (toString r) \<and> length (toString r) \<le> n
     \<and> (\<forall>rest. fromString (toString r @ CHR ''|'' # rest) = r)"

definition field_ok ::
  "('a \<Rightarrow> 8 word list) \<Rightarrow> (8 word list \<Rightarrow> ('a \<times> 8 word list) option) \<Rightarrow> 'a \<Rightarrow> bool" where
  "field_ok put get x \<longleftrightarrow> (\<forall>rest. get (put x @ rest) = Some (x, rest))"

text \<open>
  An example of the parts that are not in the source file: a range written as
  \<^verbatim>\<open>line:column-line:column\<close>, the kinds numbered in the order of the classifier's
  results, and a binary form with one byte for each number (enough for the small numbers
  of the examples).
\<close>

definition example_toString :: "Range \<Rightarrow> string" where
  "example_toString r =
     to_string (line (start r)) @ '':'' @ to_string (column (start r)) @ ''-''
     @ to_string (line (finish r)) @ '':'' @ to_string (column (finish r))"

definition example_fromString :: "string \<Rightarrow> Range" where
  "example_fromString s =
     (case strtol s of (l1, s1) \<Rightarrow>
      case strtol (drop 1 s1) of (c1, s2) \<Rightarrow>
      case strtol (drop 1 s2) of (l2, s3) \<Rightarrow>
      case strtol (drop 1 s3) of (c2, s4) \<Rightarrow>
        \<lparr> start = \<lparr> line = l1, column = c1 \<rparr>, finish = \<lparr> line = l2, column = c2 \<rparr> \<rparr>)"

definition example_kind_number :: "Kind \<Rightarrow> 8 word" where
  "example_kind_number k =
     (case k of Invalid \<Rightarrow> 0 | File \<Rightarrow> 1 | Type \<Rightarrow> 2 | Func \<Rightarrow> 3 | Var \<Rightarrow> 4)"

definition get_byte :: "(8 word \<Rightarrow> 'a) \<Rightarrow> 8 word list \<Rightarrow> ('a \<times> 8 word list) option" where
  "get_byte f bs = (case bs of [] \<Rightarrow> None | b # rest \<Rightarrow> Some (f b, rest))"

definition example_Binary :: Binary where
  "example_Binary =
     \<lparr> put_Range = (\<lambda>r. map word_of_int [line (start r), column (start r),
                                             line (finish r), column (finish r)]),
       get_Range = (\<lambda>bs. case bs of
                       a # b # c # d # rest \<Rightarrow>
                         Some (\<lparr> start = \<lparr> line = uint a, column = uint b \<rparr>,
                                  finish = \<lparr> line = uint c, column = uint d \<rparr> \<rparr>, rest)
                     | _ \<Rightarrow> None),
       put_Usr = (\<lambda>u. [ucast u]), get_Usr = get_byte ucast,
       put_Kind = (\<lambda>k. [example_kind_number k]),
       get_Kind = (\<lambda>bs. case bs of [] \<Rightarrow> None
                          | b # rest \<Rightarrow> map_option (\<lambda>k. (k, rest))
                                         (Kind_of_long example_kind_number (uint b))),
       put_Role = (\<lambda>r. [ucast r]), get_Role = get_byte ucast,
       put_int = (\<lambda>i. [word_of_int i]), get_int = get_byte uint \<rparr>"

definition example_SymbolRef :: SymbolRef where
  "example_SymbolRef =
     \<lparr> sym_range = example_Range 3 8 11, sym_usr = 6, sym_kind = Type, sym_role = 2 \<rparr>"

definition example_Use :: Use where
  "example_Use = \<lparr> use_range = example_Range 4 8 9, use_role = 4, file_id = 1 \<rparr>"

definition example_DeclRef :: DeclRef where
  "example_DeclRef =
     \<lparr> use_range = example_Range 3 8 11, use_role = 1, file_id = 0,
       extent = example_Range 3 1 20 \<rparr>"

section \<open>Verified properties\<close>

subsection \<open>Properties of uniquify\<close>

lemma first_occurrences_Suc:
  "first_occurrences a (Suc i) =
     first_occurrences a i @ (if a ! i \<in> set (take i a) then [] else [a ! i])"
  by (simp add: first_occurrences_def)

lemma set_first_occurrences:
  "i \<le> length a \<Longrightarrow> set (first_occurrences a i) = set (take i a)"
proof (induction i)
  case 0
  then show ?case by (simp add: first_occurrences_def)
next
  case (Suc i)
  then have "i < length a" by simp
  then have "take (Suc i) a = take i a @ [a ! i]"
    by (simp add: take_Suc_conv_app_nth)
  with Suc show ?case
    by (auto simp: first_occurrences_Suc)
qed

lemma distinct_first_occurrences:
  "i \<le> length a \<Longrightarrow> distinct (first_occurrences a i)"
proof (induction i)
  case 0
  then show ?case by (simp add: first_occurrences_def)
next
  case (Suc i)
  then show ?case
    by (simp add: first_occurrences_Suc set_first_occurrences)
qed

lemma length_first_occurrences: "length (first_occurrences a i) \<le> i"
proof -
  have "length (filter (\<lambda>j. a ! j \<notin> set (take j a)) [0..<i]) \<le> length [0..<i]"
    by (rule length_filter_le)
  then show ?thesis by (simp add: first_occurrences_def)
qed

lemma uniquify_loop:
  assumes "i \<le> length a"
  shows "\<exists>a'. fold uniquify_step [0..<i] (a, {}, 0) =
            (a', set (take i a), length (first_occurrences a i))
          \<and> length a' = length a
          \<and> take (length (first_occurrences a i)) a' = first_occurrences a i
          \<and> drop i a' = drop i a"
  using assms
proof (induction i)
  case 0
  then show ?case by (simp add: first_occurrences_def)
next
  case (Suc i)
  then have i: "i < length a" by simp
  from Suc obtain a' where
    f: "fold uniquify_step [0..<i] (a, {}, 0) =
          (a', set (take i a), length (first_occurrences a i))"
    and l: "length a' = length a"
    and t: "take (length (first_occurrences a i)) a' = first_occurrences a i"
    and d: "drop i a' = drop i a"
    by auto
  let ?n = "length (first_occurrences a i)"
  have n: "?n \<le> i" by (rule length_first_occurrences)
  have nth: "a' ! i = a ! i"
    using d i l by (metis Cons_nth_drop_Suc nth_via_drop)
  have tk: "take (Suc i) a = take i a @ [a ! i]"
    using i by (simp add: take_Suc_conv_app_nth)
  show ?case
  proof (cases "a ! i \<in> set (take i a)")
    case True
    have "fold uniquify_step [0..<Suc i] (a, {}, 0) =
            (a', set (take (Suc i) a), length (first_occurrences a (Suc i)))"
      using True f nth tk by (auto simp: uniquify_step_def first_occurrences_Suc)
    moreover have "drop (Suc i) a' = drop (Suc i) a"
      using d by (metis drop_Suc tl_drop)
    ultimately show ?thesis
      using True l t by (simp add: first_occurrences_Suc)
  next
    case False
    let ?b = "a'[?n := a ! i]"
    have "fold uniquify_step [0..<Suc i] (a, {}, 0) =
            (?b, set (take (Suc i) a), length (first_occurrences a (Suc i)))"
      using False f nth tk by (auto simp: uniquify_step_def first_occurrences_Suc)
    moreover have "length ?b = length a" using l by simp
    moreover have "take (Suc ?n) ?b = first_occurrences a i @ [a ! i]"
    proof -
      have "?n < length a'" using n i l by simp
      then have "take (Suc ?n) ?b = take ?n ?b @ [?b ! ?n]"
        by (simp add: take_Suc_conv_app_nth)
      also have "\<dots> = first_occurrences a i @ [a ! i]"
        using t \<open>?n < length a'\<close> by simp
      finally show ?thesis .
    qed
    moreover have "drop (Suc i) ?b = drop (Suc i) a"
    proof -
      have "drop (Suc i) ?b = drop (Suc i) a'" using n by simp
      also have "\<dots> = drop (Suc i) a" using d by (metis drop_Suc tl_drop)
      finally show ?thesis .
    qed
    ultimately show ?thesis
      using False by (simp add: first_occurrences_Suc)
  qed
qed

lemma uniquify_first_occurrences: "uniquify a = first_occurrences a (length a)"
proof -
  obtain a' where
    "fold uniquify_step [0..<length a] (a, {}, 0) =
       (a', set (take (length a) a), length (first_occurrences a (length a)))"
    and "take (length (first_occurrences a (length a))) a' = first_occurrences a (length a)"
    using uniquify_loop [of "length a" a] by auto
  then show ?thesis by (simp add: uniquify_def)
qed

lemma first_occurrences_distinct_id:
  assumes "distinct a"
  shows "first_occurrences a (length a) = a"
proof -
  have "filter (\<lambda>j. a ! j \<notin> set (take j a)) [0..<length a] = [0..<length a]"
  proof (rule filter_True, clarify)
    fix j assume j: "j \<in> set [0..<length a]" and m: "a ! j \<in> set (take j a)"
    from m obtain k where "k < j" "k < length a" "a ! k = a ! j"
      by (auto simp: in_set_conv_nth)
    with assms j show False
      by (auto simp: distinct_conv_nth)
  qed
  then show ?thesis
    by (simp add: first_occurrences_def map_nth)
qed

text \<open>
  C2. uniquify is idempotent, its output holds every element of the input exactly once,
  and the output is the list of the first occurrences of the input, in the input's order:
  the element at index \<open>j\<close> survives exactly when it does not occur before \<open>j\<close>.
\<close>

theorem uniquify_idempotent_first_seen:
  "uniquify (uniquify a) = uniquify a
   \<and> distinct (uniquify a)
   \<and> set (uniquify a) = set a
   \<and> uniquify a = map (\<lambda>j. a ! j) (filter (\<lambda>j. a ! j \<notin> set (take j a)) [0..<length a])"
proof -
  have d: "distinct (uniquify a)"
    by (simp add: uniquify_first_occurrences distinct_first_occurrences)
  have "uniquify (uniquify a) = uniquify a"
    using first_occurrences_distinct_id [OF d]
    by (simp add: uniquify_first_occurrences)
  moreover have "set (uniquify a) = set a"
    by (simp add: uniquify_first_occurrences set_first_occurrences)
  moreover have "uniquify a = map (\<lambda>j. a ! j) (filter (\<lambda>j. a ! j \<notin> set (take j a)) [0..<length a])"
    by (simp add: uniquify_first_occurrences first_occurrences_def)
  ultimately show ?thesis using d by simp
qed

subsection \<open>Properties of the classifier\<close>

lemma getKind_storage_of_category:
  "getKindOf D = getKindOf D' \<Longrightarrow> fst (getKind D k) = fst (getKind D' k')"
  by (simp add: getKind_def split: DeclKind.split)

lemma getKind_storage_range: "fst (getKind D k) \<noteq> File"
  by (simp add: getKind_def split: DeclKind.split)

lemma getKind_fine_of_node:
  "getKindOf D = getKindOf D' \<Longrightarrow> getTagKind (attrs D) = getTagKind (attrs D')
   \<Longrightarrow> isStatic (attrs D) = isStatic (attrs D') \<Longrightarrow> getKind D k = getKind D' k"
  by (simp add: getKind_def split: DeclKind.split)

lemma getKind_fine_assigned:
  "fst (getKind D k) \<noteq> Invalid \<Longrightarrow> snd (getKind D k) = snd (getKind D k')"
  by (simp add: getKind_def split: DeclKind.splits)

text \<open>
  C6. The classifier is total; its storage kind is one of Invalid, Func, Type, Var and
  depends on the syntactic category of the node only; the whole result is fixed by the
  category, the tag and the staticness of the node (and the fine-grained kind does not
  depend on what the caller's variable held, whenever the storage kind is not Invalid).
  Records are Class or Struct by tag, C++ methods StaticMethod exactly when static and
  Method otherwise, enumerators EnumMember, template type parameters TypeParameter,
  non-type template parameters Parameter; linkage specs, using declarations and the
  translation unit are Invalid.
\<close>

theorem getKind_total_mapping:
  "fst (getKind D k) \<in> {Invalid, Func, Type, Var}
   \<and> (getKindOf D = getKindOf D' \<longrightarrow> fst (getKind D k) = fst (getKind D' k'))
   \<and> (getKindOf D = getKindOf D' \<and> getTagKind (attrs D) = getTagKind (attrs D')
        \<and> isStatic (attrs D) = isStatic (attrs D') \<longrightarrow> getKind D k = getKind D' k)
   \<and> (fst (getKind D k) \<noteq> Invalid \<longrightarrow> snd (getKind D k) = snd (getKind D k'))
   \<and> (getKindOf D \<in> {CXXRecord, Record} \<longrightarrow>
        getKind D k = (Type, if getTagKind (attrs D) = TTK_Struct then Struct else Class))
   \<and> (getKindOf D = CXXMethod \<longrightarrow>
        getKind D k = (Func, if isStatic (attrs D) then StaticMethod else Method))
   \<and> (getKindOf D = EnumConstant \<longrightarrow> getKind D k = (Var, EnumMember))
   \<and> (getKindOf D = TemplateTypeParm \<longrightarrow> getKind D k = (Type, TypeParameter))
   \<and> (getKindOf D = NonTypeTemplateParm \<longrightarrow> getKind D k = (Var, Parameter))
   \<and> (getKindOf D \<in> {LinkageSpec, Using, TranslationUnit} \<longrightarrow> fst (getKind D k) = Invalid)"
proof -
  have "fst (getKind D k) \<in> {Invalid, Func, Type, Var}"
    using getKind_storage_range [of D k] by (cases "fst (getKind D k)") simp_all
  moreover have "getKindOf D \<in> {CXXRecord, Record} \<longrightarrow>
        getKind D k = (Type, if getTagKind (attrs D) = TTK_Struct then Struct else Class)"
    by (auto simp: getKind_def)
  moreover have "getKindOf D \<in> {LinkageSpec, Using, TranslationUnit} \<longrightarrow> fst (getKind D k) = Invalid"
    by (auto simp: getKind_def)
  moreover have "getKindOf D = CXXMethod \<longrightarrow>
        getKind D k = (Func, if isStatic (attrs D) then StaticMethod else Method)"
    by (simp add: getKind_def)
  moreover have "(getKindOf D = EnumConstant \<longrightarrow> getKind D k = (Var, EnumMember))
     \<and> (getKindOf D = TemplateTypeParm \<longrightarrow> getKind D k = (Type, TypeParameter))
     \<and> (getKindOf D = NonTypeTemplateParm \<longrightarrow> getKind D k = (Var, Parameter))"
    by (simp add: getKind_def)
  ultimately show ?thesis
    using getKind_storage_of_category [of D D' k k'] getKind_fine_of_node [of D D' k]
      getKind_fine_assigned [of D k k']
    by blast
qed

theorem getKind_total_mapping_witness:
  "getKindOf (simpleDecl CXXRecord 1 ''c:@S@A'' (Some (''A'', ''A'')))
     = getKindOf (simpleDecl CXXRecord 2 ''c:@S@B'' (Some (''B'', ''B'')))
   \<and> fst (getKind (simpleDecl CXXRecord 1 ''c:@S@A'' (Some (''A'', ''A''))) Unknown)
     = fst (getKind (simpleDecl CXXRecord 2 ''c:@S@B'' (Some (''B'', ''B''))) Null)
   \<and> getKind (simpleDecl CXXRecord 1 ''c:@S@A'' (Some (''A'', ''A''))) Unknown = (Type, Struct)
   \<and> getKind (simpleDecl CXXRecord 1 ''c:@S@A'' (Some (''A'', ''A''))) Unknown
     = getKind (simpleDecl CXXRecord 2 ''c:@S@B'' (Some (''B'', ''B''))) Unknown
   \<and> snd (getKind (simpleDecl CXXRecord 1 ''c:@S@A'' (Some (''A'', ''A''))) Unknown)
     = snd (getKind (simpleDecl CXXRecord 1 ''c:@S@A'' (Some (''A'', ''A''))) Null)"
  using getKind_total_mapping [of "simpleDecl CXXRecord 1 ''c:@S@A'' (Some (''A'', ''A''))" Unknown
      "simpleDecl CXXRecord 2 ''c:@S@B'' (Some (''B'', ''B''))" Null]
  by (simp add: simpleDecl_def simpleAttrs_def getKind_def)

subsection \<open>Entities are stored under their keys\<close>

lemma toFunc_result:
  "toFunc u d = (e, d') \<Longrightarrow>
     usr2func d' u = Some e \<and> usr2func d' = (usr2func d)(u \<mapsto> e)
     \<and> (usr2func d u = None \<longrightarrow> e = IndexFunc0\<lparr>usr := u\<rparr>)"
  by (auto simp: toFunc_def split: option.splits)

lemma toType_result:
  "toType u d = (e, d') \<Longrightarrow>
     usr2type d' u = Some e \<and> usr2type d' = (usr2type d)(u \<mapsto> e)
     \<and> (usr2type d u = None \<longrightarrow> e = IndexType0\<lparr>usr := u\<rparr>)"
  by (auto simp: toType_def split: option.splits)

lemma toVar_result:
  "toVar u d = (e, d') \<Longrightarrow>
     usr2var d' u = Some e \<and> usr2var d' = (usr2var d)(u \<mapsto> e)
     \<and> (usr2var d u = None \<longrightarrow> e = IndexVar0\<lparr>usr := u\<rparr>)"
  by (auto simp: toVar_def split: option.splits)

lemma toFunc_usr: "keys_ok d \<Longrightarrow> usr (fst (toFunc u d)) = u"
  by (auto simp: toFunc_def keys_ok_def split: option.splits)

lemma toType_usr: "keys_ok d \<Longrightarrow> usr (fst (toType u d)) = u"
  by (auto simp: toType_def keys_ok_def split: option.splits)

lemma toVar_usr: "keys_ok d \<Longrightarrow> usr (fst (toVar u d)) = u"
  by (auto simp: toVar_def keys_ok_def split: option.splits)

lemma same_file_refl: "same_file d d"
  by (simp add: same_file_def)

lemma same_file_trans: "same_file d d' \<Longrightarrow> same_file d' d'' \<Longrightarrow> same_file d d''"
  by (simp add: same_file_def)

lemma same_file_toFunc: "same_file d (snd (toFunc u d))"
  by (auto simp: same_file_def toFunc_def keys_ok_def split: option.splits)

lemma same_file_toType: "same_file d (snd (toType u d))"
  by (auto simp: same_file_def toType_def keys_ok_def split: option.splits)

lemma same_file_toVar: "same_file d (snd (toVar u d))"
  by (auto simp: same_file_def toVar_def keys_ok_def split: option.splits)

lemma same_file_withFunc:
  assumes "\<And>e. usr (f e) = usr e"
  shows "same_file d (withFunc u f d)"
  using assms
  by (auto simp: same_file_def withFunc_def toFunc_def keys_ok_def split: option.splits)

lemma same_file_withType:
  assumes "\<And>e. usr (f e) = usr e"
  shows "same_file d (withType u f d)"
  using assms
  by (auto simp: same_file_def withType_def toType_def keys_ok_def split: option.splits)

lemma same_file_withVar:
  assumes "\<And>e. usr (f e) = usr e"
  shows "same_file d (withVar u f d)"
  using assms
  by (auto simp: same_file_def withVar_def toVar_def keys_ok_def split: option.splits)

lemma usr_push_use [simp]: "usr (push_use x e) = usr e"
  by (simp add: push_use_def)

lemma usr_do_def_decl [simp]:
  "usr (do_def_decl cm occ is_def is_decl loc rl lid SemDC e) = usr e"
  by (simp add: do_def_decl_def Let_def)

lemma same_file_getFileLID: "same_file d (snd (getFileLID env fid d))"
  by (auto simp: same_file_def getFileLID_def keys_ok_def split: option.splits)

lemma same_file_addMacroUse:
  "addMacroUse env u k sf sr d = Some d' \<Longrightarrow> same_file d d'"
proof -
  assume a: "addMacroUse env u k sf sr d = Some d'"
  obtain lid d1 where g: "getFileLID env sf d = (lid, d1)" by (cases "getFileLID env sf d")
  have s1: "same_file d d1" using same_file_getFileLID [of d env sf] g by simp
  show ?thesis
  proof (cases "lid < 0")
    case True
    with a g s1 show ?thesis by (simp add: addMacroUse_def)
  next
    case False
    with a g have "same_file d1 d'"
      by (cases k) (auto simp: addMacroUse_def Let_def
          intro!: same_file_withFunc same_file_withType same_file_withVar)
    with s1 show ?thesis by (rule same_file_trans)
  qed
qed

lemma same_file_macro_use:
  "macro_use env occ u k d = Some d' \<Longrightarrow> same_file d d'"
  by (auto simp: macro_use_def same_file_refl dest: same_file_addMacroUse split: if_splits)

subsection \<open>The identity cache only grows\<close>

lemma cache_ext_refl: "cache_ext p p"
  by (simp add: cache_ext_def)

lemma cache_ext_trans: "cache_ext p p' \<Longrightarrow> cache_ext p' p'' \<Longrightarrow> cache_ext p p''"
  by (simp add: cache_ext_def)

lemma cache_ext_getUsr: "cache_ext p (snd (getUsr env D p))"
  by (auto simp: cache_ext_def getUsr_def cache_ok_def Let_def split: option.splits)

lemma getUsr_cached:
  "Decl2Info p (getCanonicalDecl (attrs D)) = Some i \<Longrightarrow> getUsr env D p = ((info_usr i, i), p)"
  by (simp add: getUsr_def)

lemma getUsr_stores:
  "getUsr env D p = ((u, i), p') \<Longrightarrow>
     Decl2Info p' (getCanonicalDecl (attrs D)) = Some i \<and> info_usr i = u"
  by (auto simp: getUsr_def Let_def split: option.splits)

subsection \<open>The arms of the occurrence handler keep the file and extend the cache\<close>

lemma frame_refl: "frame s s"
  by (simp add: frame_def same_file_refl cache_ext_refl)

lemma frame_trans: "frame s s' \<Longrightarrow> frame s' s'' \<Longrightarrow> frame s s''"
  by (auto simp: frame_def intro: same_file_trans cache_ext_trans)

lemma frame_withFunc:
  "(\<And>e. usr (f e) = usr e) \<Longrightarrow> frame s (d, p) \<Longrightarrow> frame s (withFunc u f d, p)"
  using same_file_withFunc [of f d u] by (auto simp: frame_def intro: same_file_trans)

lemma frame_withType:
  "(\<And>e. usr (f e) = usr e) \<Longrightarrow> frame s (d, p) \<Longrightarrow> frame s (withType u f d, p)"
  using same_file_withType [of f d u] by (auto simp: frame_def intro: same_file_trans)

lemma frame_withVar:
  "(\<And>e. usr (f e) = usr e) \<Longrightarrow> frame s (d, p) \<Longrightarrow> frame s (withVar u f d, p)"
  using same_file_withVar [of f d u] by (auto simp: frame_def intro: same_file_trans)

lemma frame_toType: "frame s (d, p) \<Longrightarrow> frame s (snd (toType u d), p)"
  using same_file_toType [of d u] by (auto simp: frame_def intro: same_file_trans)

lemma frame_getUsr: "getUsr env D p = (x, p1) \<Longrightarrow> frame s (d, p) \<Longrightarrow> frame s (d, p1)"
  using cache_ext_getUsr [of p env D] by (auto simp: frame_def intro: cache_ext_trans)

lemma frame_macro_use:
  "macro_use env occ u k d = Some d2 \<Longrightarrow> frame s (d, p) \<Longrightarrow> frame s (d2, p)"
  by (auto simp: frame_def dest!: same_file_macro_use intro: same_file_trans)

lemmas frame_with = frame_withFunc frame_withType frame_withVar frame_toType

lemma occ_Func_frame:
  assumes "occ_Func env occ D u info ls_kind lid SemDC LexDC s = Some s'"
  shows "frame s s'"
proof -
  obtain d p where s: "s = (d, p)" by (cases s)
  from assms obtain d2 where m: "macro_use env occ u Func
      (withFunc u (\<lambda>e. do_def_decl (index_comments env) occ (is_def_of occ) (is_decl_of occ)
       (narrowed_loc occ)
       (if \<not> is_def_of occ \<and> \<not> is_decl_of occ \<and> getKindOf D \<in> {CXXConstructor, CXXConversion}
        then ucast (occ_Roles occ) OR Role_Implicit else ucast (occ_Roles occ)) lid SemDC
       (e\<lparr>def := (def e)\<lparr>kind := ls_kind\<rparr>\<rparr>)) d) = Some d2"
    unfolding s by (auto simp: occ_Func_def Let_def split: option.splits)
  have f2: "frame s (d2, p)"
    by (rule frame_macro_use [OF m], rule frame_withFunc, simp, simp add: s frame_refl)
  from assms m show ?thesis
    unfolding s
    by (auto simp: occ_Func_def Let_def split: if_splits prod.splits
        intro!: frame_with elim!: frame_getUsr intro: f2 [unfolded s])
qed

lemma occ_Type_frame:
  assumes "occ_Type env occ D u info ls_kind lid SemDC s = Some s'"
  shows "frame s s'"
proof -
  obtain d p where s: "s = (d, p)" by (cases s)
  from assms obtain d2 where m: "macro_use env occ u Type
      (withType u (\<lambda>e. do_def_decl (index_comments env) occ (is_def_of occ) (is_decl_of occ)
       (narrowed_loc occ) (ucast (occ_Roles occ)) lid SemDC
       (e\<lparr>def := (def e)\<lparr>kind := ls_kind\<rparr>\<rparr>)) d) = Some d2"
    unfolding s by (auto simp: occ_Type_def Let_def split: option.splits)
  have f2: "frame s (d2, p)"
    by (rule frame_macro_use [OF m], rule frame_withType, simp, simp add: s frame_refl)
  from assms m show ?thesis
    unfolding s
    by (auto simp: occ_Type_def Let_def split: if_splits prod.splits
        intro!: frame_with elim!: frame_getUsr intro: f2 [unfolded s])
qed

lemma link_var_type_frame: "frame s (link_var_type env D u s)"
proof -
  obtain d p where s: "s = (d, p)" by (cases s)
  show ?thesis
    unfolding s
    by (auto simp: link_var_type_def Let_def split: TypeRef.splits option.splits prod.splits
        intro!: frame_with frame_refl elim!: frame_getUsr)
qed

lemma occ_Var_frame:
  assumes "occ_Var env occ D u info ls_kind lid SemDC s = Some s'"
  shows "frame s s'"
proof -
  obtain d p where s: "s = (d, p)" by (cases s)
  from assms obtain d2 where m: "macro_use env occ u Var
      (withVar u (\<lambda>e. do_def_decl (index_comments env) occ (is_def_of occ) (is_decl_of occ)
       (narrowed_loc occ) (ucast (occ_Roles occ)) lid SemDC
       (e\<lparr>def := (def e)\<lparr>kind := ls_kind\<rparr>\<rparr>)) d) = Some d2"
    unfolding s by (auto simp: occ_Var_def Let_def split: option.splits)
  have f2: "frame s (d2, p)"
    by (rule frame_macro_use [OF m], rule frame_withVar, simp, simp add: s frame_refl)
  from assms m show ?thesis
    unfolding s
    by (auto simp: occ_Var_def Let_def split: if_splits prod.splits
        intro!: frame_with frame_trans [OF _ link_var_type_frame]
        elim!: frame_getUsr intro: f2 [unfolded s])
qed

lemma link_base_frame: "frame s (link_base env u D1 s)"
proof -
  obtain d p where s: "s = (d, p)" by (cases s)
  show ?thesis
    unfolding s
    by (auto simp: link_base_def split: prod.splits
        intro!: frame_with frame_refl elim!: frame_getUsr)
qed

lemma fold_frame:
  assumes "\<And>x s. frame s (f x s)"
  shows "frame s (fold f xs s)"
proof (induction xs arbitrary: s)
  case Nil
  show ?case by (simp add: frame_refl)
next
  case (Cons x xs)
  have "frame s (f x s)" by (rule assms)
  moreover have "frame (f x s) (fold f xs (f x s))" by (rule Cons.IH)
  ultimately show ?case by (auto intro: frame_trans)
qed

lemma link_cxx_bases_frame: "frame s (link_cxx_bases env u bs s)"
  unfolding link_cxx_bases_def
  by (rule fold_frame) (auto split: option.splits intro: link_base_frame frame_refl)

lemma collectRecordMembers_frame: "frame s (collectRecordMembers env u ms s)"
  unfolding collectRecordMembers_def
proof (rule fold_frame)
  fix x :: "Decl \<times> int" and s :: "IndexFile \<times> IndexParam"
  obtain FD off where x: "x = (FD, off)" by (cases x)
  obtain d p where s: "s = (d, p)" by (cases s)
  show "frame s ((\<lambda>(FD, offset1) (d, p).
             case getUsr env FD p of
               ((usr1, i1), p1) \<Rightarrow>
                 (withType u (\<lambda>e. e\<lparr>def := (def e)\<lparr>vars := vars (def e) @ [(usr1, offset1)]\<rparr>\<rparr>) d,
                  p1)) x s)"
    unfolding x s
    by (auto split: prod.splits intro!: frame_with frame_refl elim!: frame_getUsr)
qed

lemma record_relations_frame: "frame s (record_relations env occ D u info s)"
proof -
  obtain d p where s: "s = (d, p)" by (cases s)
  show ?thesis
    unfolding s
    by (auto simp: record_relations_def Let_def
        intro!: frame_trans [OF _ collectRecordMembers_frame] frame_with frame_refl)
qed

lemma overridden_frame:
  "frame s (fold (\<lambda>ND1 (d', p').
       case getUsr env ND1 p' of
         ((usr1, i1), p1) \<Rightarrow>
           (withFunc usr1 (\<lambda>e. e\<lparr>derived := derived e @ [u]\<rparr>)
              (withFunc u (\<lambda>e. e\<lparr>def := (def e)\<lparr>func_bases := func_bases (def e) @ [usr1]\<rparr>\<rparr>) d'),
            p1)) ov s)"
proof (rule fold_frame)
  fix x :: Decl and s :: "IndexFile \<times> IndexParam"
  obtain d p where s: "s = (d, p)" by (cases s)
  show "frame s ((\<lambda>ND1 (d', p').
       case getUsr env ND1 p' of
         ((usr1, i1), p1) \<Rightarrow>
           (withFunc usr1 (\<lambda>e. e\<lparr>derived := derived e @ [u]\<rparr>)
              (withFunc u (\<lambda>e. e\<lparr>def := (def e)\<lparr>func_bases := func_bases (def e) @ [usr1]\<rparr>\<rparr>) d'),
            p1)) x s)"
    unfolding s
    by (auto split: prod.splits intro!: frame_with frame_refl elim!: frame_getUsr)
qed

lemma frame_after:
  "frame s t \<Longrightarrow> frame s (collectRecordMembers env u ms t)"
  "frame s t \<Longrightarrow> frame s (link_base env u D1 t)"
  "frame s t \<Longrightarrow> frame s (record_relations env occ D u info t)"
  "frame s t \<Longrightarrow> frame s (link_cxx_bases env u bs t)"
  "frame s t \<Longrightarrow> frame s (link_var_type env D u t)"
  by (blast intro: frame_trans collectRecordMembers_frame link_base_frame
      record_relations_frame link_cxx_bases_frame link_var_type_frame)+

lemma relations_frame:
  assumes "relations env occ D u info k lid s = Some s'"
  shows "frame s s'"
proof -
  obtain d p where s: "s = (d, p)" by (cases s)
  from assms show ?thesis
    unfolding s relations_def Let_def
    by (auto split: if_splits option.splits prod.splits
        intro!: frame_after overridden_frame frame_with frame_refl
        elim!: frame_getUsr)
qed

subsection \<open>Staging\<close>

lemma seenFile_seen: "uid2file p fid = Some f \<Longrightarrow> seenFile env fid p = p"
  by (simp add: seenFile_def)

lemma seenFile_dom: "uid2file (seenFile env fid p) fid \<noteq> None"
  by (auto simp: seenFile_def Let_def split: option.splits)

lemma seenFile_other: "fid' \<noteq> fid \<Longrightarrow> uid2file (seenFile env fid p) fid' = uid2file p fid'"
  by (auto simp: seenFile_def Let_def split: option.splits)

lemma seenFile_fields:
  "param_no_linkage (seenFile env fid p) = param_no_linkage p"
  "Decl2Info (seenFile env fid p) = Decl2Info p"
  "rendered (seenFile env fid p) = rendered p"
  "uid2multi (seenFile env fid p) = uid2multi p"
  by (auto simp: seenFile_def Let_def split: option.splits)

lemma consumeFile_eq:
  "consumeFile env fid p =
     (case uid2file (seenFile env fid p) fid of Some f \<Rightarrow> db f | None \<Rightarrow> None,
      seenFile env fid p)"
  using seenFile_dom [of env fid p]
  by (auto simp: consumeFile_def Let_def split: option.splits)

lemma consumeFile_Some:
  "consumeFile env fid p = (Some d, p') \<Longrightarrow>
     p' = seenFile env fid p \<and> (\<exists>file. uid2file p' fid = Some file \<and> db file = Some d)"
  by (auto simp: consumeFile_eq split: option.splits)

lemma consumeFile_None:
  "consumeFile env fid p = (None, p') \<Longrightarrow> p' = seenFile env fid p"
  by (auto simp: consumeFile_eq split: option.splits)

lemma pass_ext_refl: "pass_ext p p"
  by (simp add: pass_ext_def)

lemma pass_ext_trans:
  assumes "pass_ext p p'" and "pass_ext p' p''"
  shows "pass_ext p p''"
proof -
  have "\<exists>new. vfs_calls p'' = vfs_calls p @ new"
    using assms by (auto simp: pass_ext_def)
  moreover have "\<forall>fid file. uid2file p fid = Some file \<longrightarrow>
           (\<exists>file'. uid2file p'' fid = Some file' \<and> path file' = path file
              \<and> mtime file' = mtime file \<and> (db file = None \<longrightarrow> db file' = None)
              \<and> (db file \<noteq> None \<longrightarrow> db file' \<noteq> None))"
  proof (intro allI impI)
    fix fid fl0 assume "uid2file p fid = Some fl0"
    with assms(1) obtain f1 where f1: "uid2file p' fid = Some f1" "path f1 = path fl0"
      "mtime f1 = mtime fl0" "db fl0 = None \<longrightarrow> db f1 = None" "db fl0 \<noteq> None \<longrightarrow> db f1 \<noteq> None"
      unfolding pass_ext_def by blast
    with assms(2) obtain f2 where "uid2file p'' fid = Some f2" "path f2 = path f1"
      "mtime f2 = mtime f1" "db f1 = None \<longrightarrow> db f2 = None" "db f1 \<noteq> None \<longrightarrow> db f2 \<noteq> None"
      unfolding pass_ext_def by blast
    with f1 show "\<exists>file'. uid2file p'' fid = Some file' \<and> path file' = path fl0
              \<and> mtime file' = mtime fl0 \<and> (db fl0 = None \<longrightarrow> db file' = None)
              \<and> (db fl0 \<noteq> None \<longrightarrow> db file' \<noteq> None)"
      by auto
  qed
  ultimately show ?thesis
    using assms by (simp add: pass_ext_def)
qed

lemma pass_ext_seenFile: "pass_ext p (seenFile env fid p)"
  by (auto simp: pass_ext_def seenFile_def Let_def split: option.splits)

lemma pass_ext_useMultiVersion: "pass_ext p (snd (useMultiVersion env fid p))"
  by (auto simp: pass_ext_def useMultiVersion_def split: option.splits)

lemma staged_ok_seenFile: "staged_ok p \<Longrightarrow> staged_ok (seenFile env fid p)"
  by (auto simp: staged_ok_def seenFile_def Let_def File0_def IndexFile_new_def keys_ok_def
      split: option.splits if_splits)

lemma cache_ok_seenFile: "cache_ok p \<Longrightarrow> cache_ok (seenFile env fid p)"
  by (simp add: cache_ok_def seenFile_fields)

lemma stamps_ok_seenFile:
  assumes "stamps_ok env p"
  shows "stamps_ok env (seenFile env fid p)"
proof (cases "uid2file p fid")
  case (Some f)
  with assms show ?thesis by (simp add: seenFile_seen)
next
  case None
  have notin: "fid \<notin> fst ` set (vfs_calls p)"
    using assms None by (fastforce simp: stamps_ok_def)
  show ?thesis
  proof (cases "getFileEntryForID env fid")
    case N: None
    have eq: "seenFile env fid p = p\<lparr>uid2file := (uid2file p)(fid \<mapsto> File0)\<rparr>"
      using None N by (simp add: seenFile_def)
    show ?thesis
      unfolding eq stamps_ok_def using assms notin N
      by (auto simp: stamps_ok_def)
  next
    case (Some fe)
    define fl where "fl = the (uid2file (seenFile env fid p) fid)"
    have eq: "seenFile env fid p =
        p\<lparr>vfs_calls := vfs_calls p @ [(fid, pathFromFileEntry fe, mtime fl,
              if param_no_linkage p then 3 else 1)],
          uid2file := (uid2file p)(fid \<mapsto> fl)\<rparr>" and fl: "path fl = pathFromFileEntry fe"
      using None Some unfolding fl_def by (simp_all add: seenFile_def Let_def)
    show ?thesis
      unfolding eq stamps_ok_def using assms notin Some fl
      by (auto simp: stamps_ok_def image_iff)
  qed
qed

lemma pass_ok_seenFile: "pass_ok env p \<Longrightarrow> pass_ok env (seenFile env fid p)"
  by (simp add: pass_ok_def staged_ok_seenFile stamps_ok_seenFile cache_ok_seenFile)

lemma pass_ok_useMultiVersion: "pass_ok env p \<Longrightarrow> pass_ok env (snd (useMultiVersion env fid p))"
  by (auto simp: pass_ok_def staged_ok_def stamps_ok_def cache_ok_def useMultiVersion_def
      split: option.splits)

subsection \<open>Storing an index back\<close>

lemma store_db_ok:
  assumes ok: "pass_ok env p"
    and u: "uid2file p target = Some fl" and d0: "db fl = Some d0"
    and sf: "same_file d0 d1" and fr: "frame (d1, p) (d', p')"
  shows "pass_ok env (store_db target (d', p')) \<and> pass_ext p (store_db target (d', p'))"
proof -
  from fr have sf': "same_file d1 d'" and ce: "cache_ext p p'"
    by (simp_all add: frame_def)
  from ce have u2f: "uid2file p' = uid2file p" and calls: "vfs_calls p' = vfs_calls p"
    and nl: "param_no_linkage p' = param_no_linkage p"
    and mono: "\<forall>c i. Decl2Info p c = Some i \<longrightarrow> Decl2Info p' c = Some i"
    and co: "cache_ok p \<longrightarrow> cache_ok p'"
    by (simp_all add: cache_ext_def)
  let ?q = "store_db target (d', p')"
  have q: "?q = p'\<lparr>uid2file := (uid2file p)(target \<mapsto> fl\<lparr>db := Some d'\<rparr>)\<rparr>"
    using u d0 u2f by (simp add: store_db_def update_db_def)
  from ok u d0 have "IndexFile.path d0 = path fl" "dependencies d0 = Map.empty" "keys_ok d0"
    by (auto simp: pass_ok_def staged_ok_def)
  with sf sf' have d': "IndexFile.path d' = path fl" "dependencies d' = Map.empty" "keys_ok d'"
    by (simp_all add: same_file_def)
  have 1: "staged_ok ?q"
    unfolding q using ok d' by (auto simp: pass_ok_def staged_ok_def)
  have st: "stamps_ok env p" using ok by (simp add: pass_ok_def)
  have 2: "stamps_ok env ?q"
    unfolding stamps_ok_def
  proof (intro conjI ballI allI impI)
    show "distinct (map fst (vfs_calls ?q))"
      unfolding q using st calls by (simp add: stamps_ok_def)
  next
    fix c assume "c \<in> set (vfs_calls ?q)"
    then have c: "c \<in> set (vfs_calls p)" unfolding q using calls by simp
    with st show "snd (snd (snd c)) = (if param_no_linkage ?q then 3 else 1)"
      unfolding q using nl by (simp add: stamps_ok_def)
    from st c obtain fe f where f: "getFileEntryForID env (fst c) = Some fe"
      "fst (snd c) = pathFromFileEntry fe" "uid2file p (fst c) = Some f"
      "path f = fst (snd c)" "mtime f = fst (snd (snd c))"
      unfolding stamps_ok_def by blast
    show "\<exists>fe f'. getFileEntryForID env (fst c) = Some fe
                \<and> fst (snd c) = pathFromFileEntry fe
                \<and> uid2file ?q (fst c) = Some f'
                \<and> path f' = fst (snd c) \<and> mtime f' = fst (snd (snd c))"
    proof (cases "fst c = target")
      case True
      with f u show ?thesis unfolding q by simp
    next
      case False
      with f show ?thesis unfolding q by simp
    qed
  next
    fix fid f assume a: "uid2file ?q fid = Some f" "getFileEntryForID env fid \<noteq> None"
    have "uid2file p fid \<noteq> None"
      using a(1) u unfolding q by (cases "fid = target") simp_all
    with st a(2) have "fid \<in> fst ` set (vfs_calls p)"
      unfolding stamps_ok_def by blast
    then show "fid \<in> fst ` set (vfs_calls ?q)" unfolding q using calls by simp
  qed
  have 3: "cache_ok ?q"
    unfolding q using ok co by (simp add: pass_ok_def cache_ok_def)
  have 4: "pass_ext p ?q"
    unfolding q pass_ext_def using nl mono calls u d0 by simp
  from 1 2 3 4 show ?thesis by (simp add: pass_ok_def)
qed

subsection \<open>Every handler keeps the invariant\<close>

lemma consume_ok:
  assumes "pass_ok env p" and "consumeFile env fid p = (r, p1)"
  shows "pass_ok env p1 \<and> pass_ext p p1"
proof -
  from assms(2) have "p1 = seenFile env fid p" by (simp add: consumeFile_eq)
  with assms(1) show ?thesis by (simp add: pass_ok_seenFile pass_ext_seenFile)
qed

lemma consume_store_ok:
  assumes ok: "pass_ok env p" and c: "consumeFile env fid p = (Some d, p1)"
    and fr: "frame (d, p1) (d', p')"
  shows "pass_ok env (store_db fid (d', p')) \<and> pass_ext p (store_db fid (d', p'))"
proof -
  from consume_ok [OF ok c] have ok1: "pass_ok env p1" and e1: "pass_ext p p1" by simp_all
  from consumeFile_Some [OF c] obtain fl where "uid2file p1 fid = Some fl" "db fl = Some d"
    by blast
  from store_db_ok [OF ok1 this same_file_refl fr] e1 show ?thesis
    by (blast intro: pass_ext_trans)
qed

lemma usr_MacroDefined_var [simp]: "usr (MacroDefined_var env ev e) = usr e"
  by (simp add: MacroDefined_var_def Let_def split: option.splits)

lemma MacroDefined_ok:
  assumes "pass_ok env p"
  shows "pass_ok env (MacroDefined env ev p) \<and> pass_ext p (MacroDefined env ev p)"
proof (cases "consumeFile env (mac_fid ev) p")
  case (Pair r p1)
  show ?thesis
  proof (cases r)
    case None
    with Pair consume_ok [OF assms Pair] show ?thesis by (simp add: MacroDefined_def)
  next
    case (Some d)
    have "frame (d, p1) (withVar (snd (getMacro env (mac_Name ev))) (MacroDefined_var env ev) d, p1)"
      by (rule frame_withVar) (simp_all add: frame_refl)
    from consume_store_ok [OF assms Pair [unfolded Some] this] show ?thesis
      using Pair Some by (simp add: MacroDefined_def)
  qed
qed

lemma MacroExpands_ok:
  assumes "pass_ok env p"
  shows "pass_ok env (MacroExpands env tok fid r p) \<and> pass_ext p (MacroExpands env tok fid r p)"
proof (cases "consumeFile env fid p")
  case (Pair res p1)
  show ?thesis
  proof (cases res)
    case None
    with Pair consume_ok [OF assms Pair] show ?thesis by (simp add: MacroExpands_def)
  next
    case (Some d)
    have "frame (d, p1) (withVar (snd (getMacro env tok))
        (push_use \<lparr> use_range = r, use_role = Role_Dynamic, file_id = - 1 \<rparr>) d, p1)"
      by (rule frame_withVar) (simp_all add: frame_refl)
    from consume_store_ok [OF assms Pair [unfolded Some] this] show ?thesis
      using Pair Some by (simp add: MacroExpands_def)
  qed
qed

lemma MacroUndefined_ok:
  assumes "pass_ok env p"
  shows "pass_ok env (MacroUndefined env tok ud p) \<and> pass_ext p (MacroUndefined env tok ud p)"
  using assms MacroExpands_ok [OF assms]
  by (auto simp: MacroUndefined_def pass_ext_refl split: option.splits)

lemma FileChanged_ok:
  assumes "pass_ok env p"
  shows "pass_ok env (FileChanged env b fid p) \<and> pass_ext p (FileChanged env b fid p)"
  using assms consume_ok [OF assms, of fid]
  by (cases "consumeFile env fid p") (auto simp: FileChanged_def pass_ext_refl)

lemma frame_plain:
  "IndexFile.path d' = IndexFile.path d \<Longrightarrow> dependencies d' = dependencies d
   \<Longrightarrow> usr2func d' = usr2func d \<Longrightarrow> usr2type d' = usr2type d \<Longrightarrow> usr2var d' = usr2var d
   \<Longrightarrow> frame (d, p) (d', p)"
  by (simp add: frame_def same_file_def keys_ok_def cache_ext_refl)

lemma InclusionDirective_ok:
  assumes "pass_ok env p"
  shows "pass_ok env (InclusionDirective env fe spl fid p)
         \<and> pass_ext p (InclusionDirective env fe spl fid p)"
proof (cases fe)
  case None
  with assms show ?thesis by (simp add: InclusionDirective_def pass_ext_refl)
next
  case (Some e)
  show ?thesis
  proof (cases "consumeFile env fid p")
    case (Pair res p1)
    show ?thesis
    proof (cases res)
      case None
      with Pair Some consume_ok [OF assms Pair] show ?thesis
        by (simp add: InclusionDirective_def)
    next
      case S: (Some d)
      have "frame (d, p1) (d\<lparr>file_includes := file_includes d
                            @ [(line (start spl), pathFromFileEntry e)]\<rparr>, p1)"
        by (rule frame_plain) simp_all
      from consume_store_ok [OF assms Pair [unfolded S] this] consume_ok [OF assms Pair]
      show ?thesis
        using Pair Some S by (simp add: InclusionDirective_def)
    qed
  qed
qed

lemma SourceRangeSkipped_ok:
  assumes "pass_ok env p"
  shows "pass_ok env (SourceRangeSkipped env r fid p)
         \<and> pass_ext p (SourceRangeSkipped env r fid p)"
proof (cases "consumeFile env fid p")
  case (Pair res p1)
  show ?thesis
  proof (cases res)
    case None
    with Pair consume_ok [OF assms Pair] assms show ?thesis
      by (simp add: SourceRangeSkipped_def pass_ext_refl)
  next
    case (Some d)
    have "frame (d, p1) (d\<lparr>skipped_ranges := skipped_ranges d @ [r]\<rparr>, p1)"
      by (rule frame_plain) simp_all
    from consume_store_ok [OF assms Pair [unfolded Some] this] assms show ?thesis
      using Pair Some by (simp add: SourceRangeSkipped_def pass_ext_refl)
  qed
qed

lemma useMultiVersion_ok:
  assumes "pass_ok env p"
    and "(if multiVersion env \<noteq> 0 then useMultiVersion env fid p else (False, p)) = (mv, p1)"
  shows "pass_ok env p1 \<and> pass_ext p p1"
  using assms pass_ok_useMultiVersion [of env p fid] pass_ext_useMultiVersion [of p env fid]
  by (auto simp: pass_ext_refl split: if_splits)

lemma shouldSkipFunctionBody_ok:
  assumes "pass_ok env p"
  shows "pass_ok env (snd (shouldSkipFunctionBody env fid p))
         \<and> pass_ext p (snd (shouldSkipFunctionBody env fid p))"
proof -
  obtain mv p1 where m: "(if multiVersion env \<noteq> 0 then useMultiVersion env fid p else (False, p)) = (mv, p1)"
    by (cases "if multiVersion env \<noteq> 0 then useMultiVersion env fid p else (False, p)")
  from useMultiVersion_ok [OF assms m] have 1: "pass_ok env p1" "pass_ext p p1" by simp_all
  obtain r p2 where c: "consumeFile env fid p1 = (r, p2)" by (cases "consumeFile env fid p1")
  from consume_ok [OF 1(1) c] 1 have "pass_ok env p2" "pass_ext p p2"
    by (auto intro: pass_ext_trans)
  with 1 m c show ?thesis
    by (simp add: shouldSkipFunctionBody_def)
qed

lemma occurrence_body_ok:
  assumes ok: "pass_ok env p" and u: "uid2file p target = Some fl" and d0: "db fl = Some d0"
    and sf: "same_file d0 d"
    and b: "occurrence_body env occ lid target d p = Some p'"
  shows "pass_ok env p' \<and> pass_ext p p'"
proof -
  let ?d1 = "d\<lparr>language := language d OR LanguageId_int (getDeclLanguage (occ_D occ))\<rparr>"
  have f1: "frame (d, p) (?d1, p)" by (rule frame_plain) simp_all
  obtain u' info p1 where g: "getUsr env (adjusted_D occ) p = ((u', info), p1)"
    by (cases "getUsr env (adjusted_D occ) p") auto
  have f2: "frame (d, p) (?d1, p1)" by (rule frame_getUsr [OF g f1])
  have "\<exists>s'. p' = store_db target s' \<and> frame (?d1, p1) s'"
  proof (cases "fst (getKind (occ_D occ) Unknown)")
    case Invalid
    with b g have "p' = store_db target (?d1, p1)"
      unfolding occurrence_body_def Let_def
      by (auto split: option.splits)
    then show ?thesis using frame_refl by blast
  next
    case File
    with b g have "p' = store_db target (?d1, p1)"
      unfolding occurrence_body_def Let_def
      by (auto split: option.splits)
    then show ?thesis using frame_refl by blast
  next
    case Type
    with b g obtain SemDC s1 s2 where
      a: "occ_Type env occ (adjusted_D occ) u' info (snd (getKind (occ_D occ) Unknown)) lid SemDC (?d1, p1) = Some s1"
      and r: "relations env occ (adjusted_D occ) u' info Type lid s1 = Some s2" and c: "p' = store_db target s2"
      unfolding occurrence_body_def Let_def
      by (auto split: option.splits simp: Option.bind_eq_Some_conv)
    from frame_trans [OF occ_Type_frame [OF a] relations_frame [OF r]] c show ?thesis by blast
  next
    case Func
    with b g obtain SemDC LexDC s1 s2 where
      a: "occ_Func env occ (adjusted_D occ) u' info (snd (getKind (occ_D occ) Unknown)) lid SemDC LexDC (?d1, p1) = Some s1"
      and r: "relations env occ (adjusted_D occ) u' info Func lid s1 = Some s2" and c: "p' = store_db target s2"
      unfolding occurrence_body_def Let_def
      by (auto split: option.splits simp: Option.bind_eq_Some_conv)
    from frame_trans [OF occ_Func_frame [OF a] relations_frame [OF r]] c show ?thesis by blast
  next
    case Var
    with b g obtain SemDC s1 s2 where
      a: "occ_Var env occ (adjusted_D occ) u' info (snd (getKind (occ_D occ) Unknown)) lid SemDC (?d1, p1) = Some s1"
      and r: "relations env occ (adjusted_D occ) u' info Var lid s1 = Some s2" and c: "p' = store_db target s2"
      unfolding occurrence_body_def Let_def
      by (auto split: option.splits simp: Option.bind_eq_Some_conv)
    from frame_trans [OF occ_Var_frame [OF a] relations_frame [OF r]] c show ?thesis by blast
  qed
  then obtain s' where s': "p' = store_db target s'" and fr: "frame (d, p) s'"
    using f2 by (blast intro: frame_trans)
  obtain d' q where "s' = (d', q)" by (cases s')
  with store_db_ok [OF ok u d0 sf] fr s' show ?thesis by simp
qed

lemma handleDeclOccurence_ok:
  assumes ok: "pass_ok env p" and h: "handleDeclOccurence env occ p = Some p'"
  shows "pass_ok env p' \<and> pass_ext p p'"
proof (cases "handleDeclOccurence env occ p = Some p")
  case True
  with h ok show ?thesis by (simp add: pass_ext_refl)
next
  case False
  then have h': "(case (if multiVersion env \<noteq> 0 then useMultiVersion env (occ_fid occ) p
                  else (False, p)) of
              (mv, p1) \<Rightarrow>
                if mv
                then (case consumeFile env (getMainFileID env) p1 of
                        (None, p2) \<Rightarrow> Some p2
                      | (Some d, p2) \<Rightarrow>
                          (case (if \<not> occ_isWrittenInMainFile occ
                                 then getFileLID env (occ_fid occ) d else (- 1, d)) of
                             (lid, d') \<Rightarrow>
                               occurrence_body env occ lid (getMainFileID env) d'
                                 (seenFile env (occ_fid occ) p2)))
                else (case consumeFile env (occ_fid occ) p1 of
                        (None, p2) \<Rightarrow> Some p2
                      | (Some d, p2) \<Rightarrow> occurrence_body env occ (- 1) (occ_fid occ) d p2))
     = Some p'"
    using h unfolding handleDeclOccurence_def by (simp split: if_split_asm)
  obtain mv p1 where m: "(if multiVersion env \<noteq> 0 then useMultiVersion env (occ_fid occ) p
      else (False, p)) = (mv, p1)"
    by (cases "if multiVersion env \<noteq> 0 then useMultiVersion env (occ_fid occ) p else (False, p)")
  from useMultiVersion_ok [OF ok m] have ok1: "pass_ok env p1" and e1: "pass_ext p p1" by simp_all
  show ?thesis
  proof (cases mv)
    case True
    obtain r p2 where c: "consumeFile env (getMainFileID env) p1 = (r, p2)"
      by (cases "consumeFile env (getMainFileID env) p1")
    from consume_ok [OF ok1 c] have ok2: "pass_ok env p2" and e2: "pass_ext p1 p2" by simp_all
    show ?thesis
    proof (cases r)
      case None
      with h' m True c have "p' = p2" by simp
      with ok2 e1 e2 show ?thesis by (blast intro: pass_ext_trans)
    next
      case (Some d)
      from consumeFile_Some [OF c [unfolded Some]] obtain fl where
        fl: "uid2file p2 (getMainFileID env) = Some fl" "db fl = Some d" by blast
      let ?p3 = "seenFile env (occ_fid occ) p2"
      have ok3: "pass_ok env ?p3" and e3: "pass_ext p2 ?p3"
        using ok2 by (simp_all add: pass_ok_seenFile pass_ext_seenFile)
      have fl3: "uid2file ?p3 (getMainFileID env) = Some fl"
        using fl(1) by (cases "getMainFileID env = occ_fid occ")
          (simp_all add: seenFile_seen seenFile_other)
      obtain lid d' where l: "(if \<not> occ_isWrittenInMainFile occ
          then getFileLID env (occ_fid occ) d else (- 1, d)) = (lid, d')"
        by (cases "if \<not> occ_isWrittenInMainFile occ then getFileLID env (occ_fid occ) d else (- 1, d)")
      have sf: "same_file d d'"
        using l same_file_getFileLID [of d env "occ_fid occ"]
        by (auto simp: same_file_refl split: if_splits)
      from h' m True c Some l have "occurrence_body env occ lid (getMainFileID env) d' ?p3 = Some p'"
        by simp
      from occurrence_body_ok [OF ok3 fl3 fl(2) sf this] e1 e2 e3 show ?thesis
        by (blast intro: pass_ext_trans)
    qed
  next
    case F: False
    obtain r p2 where c: "consumeFile env (occ_fid occ) p1 = (r, p2)"
      by (cases "consumeFile env (occ_fid occ) p1")
    from consume_ok [OF ok1 c] have ok2: "pass_ok env p2" and e2: "pass_ext p1 p2" by simp_all
    show ?thesis
    proof (cases r)
      case None
      with h' m F c have "p' = p2" by simp
      with ok2 e1 e2 show ?thesis by (blast intro: pass_ext_trans)
    next
      case (Some d)
      from consumeFile_Some [OF c [unfolded Some]] obtain fl where
        fl: "uid2file p2 (occ_fid occ) = Some fl" "db fl = Some d" by blast
      from h' m F c Some have "occurrence_body env occ (- 1) (occ_fid occ) d p2 = Some p'"
        by simp
      from occurrence_body_ok [OF ok2 fl same_file_refl this] e1 e2 show ?thesis
        by (blast intro: pass_ext_trans)
    qed
  qed
qed

lemma handle_ok:
  assumes "pass_ok env p" and "handle env e p = Some p'"
  shows "pass_ok env p' \<and> pass_ext p p'"
  using assms FileChanged_ok InclusionDirective_ok MacroDefined_ok MacroExpands_ok
    MacroUndefined_ok SourceRangeSkipped_ok shouldSkipFunctionBody_ok handleDeclOccurence_ok
  by (cases e) auto

lemma run_events_ok:
  "pass_ok env p \<Longrightarrow> run_events env es p = Some p' \<Longrightarrow> pass_ok env p' \<and> pass_ext p p'"
proof (induction es arbitrary: p)
  case Nil
  then show ?case by (simp add: pass_ext_refl)
next
  case (Cons e es)
  from Cons.prems obtain q where q: "handle env e p = Some q" "run_events env es q = Some p'"
    by (auto split: option.splits)
  from handle_ok [OF Cons.prems(1) q(1)] have "pass_ok env q" "pass_ext p q" by simp_all
  with Cons.IH [OF _ q(2)] show ?case by (blast intro: pass_ext_trans)
qed

lemma pass_ok_new: "pass_ok env (IndexParam_new nl)"
  by (simp add: pass_ok_def staged_ok_def stamps_ok_def cache_ok_def IndexParam_new_def)

subsection \<open>The example pass\<close>

lemma example_env_simps:
  "getFileEntryForID example_env 1 = Some \<lparr> pathFromFileEntry = ''/a.cc'', getModificationTime = 5,
                                absolutePath = Some ''/a.cc'' \<rparr>"
  "getFileEntryForID example_env 2 = Some \<lparr> pathFromFileEntry = ''/a.h'', getModificationTime = 7,
                                absolutePath = Some ''/a.h'' \<rparr>"
  "getFileEntryForID example_env 3 = None"
  "lastWriteTime example_env = (\<lambda>pa. None)"
  "readContent example_env = (\<lambda>pa. None)"
  "vfs_stamp example_env = (\<lambda>calls pa mt mode. pa \<noteq> ''/a.h'')"
  "matches example_env = (\<lambda>pa. False)"
  "hashUsr example_env = (\<lambda>s. of_nat (length s))"
  "getMainFileID example_env = 1"
  "multiVersion example_env = 0"
  "index_comments example_env = 2"
  "maxInitializerLines example_env = 5"
  by (simp_all add: example_env_def)

lemma example_seen1:
  "seenFile example_env 1 (IndexParam_new False) =
     (IndexParam_new False)\<lparr>vfs_calls := [(1, ''/a.cc'', 5, 1)],
        uid2file := [1 \<mapsto> example_File1]\<rparr>"
  by (simp add: seenFile_def example_env_simps IndexParam_new_def Let_def example_File1_def)

lemma example_seen2:
  "seenFile example_env 2 ((IndexParam_new False)\<lparr>vfs_calls := [(1, ''/a.cc'', 5, 1)],
        uid2file := [1 \<mapsto> example_File1]\<rparr>) = example_Param"
  by (simp add: seenFile_def example_env_simps IndexParam_new_def Let_def example_File2_def
      example_Param_def)

lemma example_run:
  "run_events example_env [EvFileChanged True 1, EvFileChanged True 2] (IndexParam_new False)
     = Some example_Param"
  by (simp add: FileChanged_def consumeFile_eq example_seen1 example_seen2)

lemma example_index:
  "index example_env ''/a.cc'' [] False (example_Run True False None) =
     ([finalize_entry ''/a.cc'' [] (uid2file example_Param) [2, 1]
         (IndexFile_new ''/a.cc'' [] False)], True)"
proof -
  have "finalize ''/a.cc'' [] [2, 1] example_Param =
      [finalize_entry ''/a.cc'' [] (uid2file example_Param) [2, 1]
         (IndexFile_new ''/a.cc'' [] False)]"
    by (simp add: finalize_def example_Param_def example_File1_def example_File2_def)
  then show ?thesis
    by (simp add: index_def example_Run_def example_run del: run_events.simps)
qed


subsection \<open>The post-pass\<close>

lemma stamp_dependency_fields:
  "IndexFile.path (stamp_dependency f e) = IndexFile.path e"
  "import_file (stamp_dependency f e) = import_file e"
  "usr2func (stamp_dependency f e) = usr2func e"
  "usr2type (stamp_dependency f e) = usr2type e"
  "usr2var (stamp_dependency f e) = usr2var e"
  by (simp_all add: stamp_dependency_def)

lemma stamp_dependencies_fields:
  "IndexFile.path (stamp_dependencies u2f order e) = IndexFile.path e
   \<and> import_file (stamp_dependencies u2f order e) = import_file e
   \<and> usr2func (stamp_dependencies u2f order e) = usr2func e
   \<and> usr2type (stamp_dependencies u2f order e) = usr2type e
   \<and> usr2var (stamp_dependencies u2f order e) = usr2var e"
  unfolding stamp_dependencies_def
  by (induction order arbitrary: e) (auto simp: stamp_dependency_fields split: option.splits)

lemma stamp_dependency_excl:
  "dependencies e (IndexFile.path e) = None \<Longrightarrow> dependencies e (import_file e) = None \<Longrightarrow>
   dependencies (stamp_dependency f e) (IndexFile.path e) = None
   \<and> dependencies (stamp_dependency f e) (import_file e) = None"
  by (simp add: stamp_dependency_def)

lemma stamp_dependencies_excl:
  "dependencies e (IndexFile.path e) = None \<Longrightarrow> dependencies e (import_file e) = None \<Longrightarrow>
   dependencies (stamp_dependencies u2f order e) (IndexFile.path e) = None
   \<and> dependencies (stamp_dependencies u2f order e) (import_file e) = None"
  unfolding stamp_dependencies_def
proof (induction order arbitrary: e)
  case Nil
  then show ?case by simp
next
  case (Cons fid order)
  show ?case
  proof (cases "u2f fid")
    case None
    with Cons show ?thesis by simp
  next
    case (Some f)
    from stamp_dependency_excl [OF Cons.prems, of f] Cons.IH [of "stamp_dependency f e"] Some
    show ?thesis by (simp add: stamp_dependency_fields)
  qed
qed

lemma stamp_dependencies_snoc:
  "stamp_dependencies u2f (order @ [fid]) e =
     (case u2f fid of Some f \<Rightarrow> stamp_dependency f (stamp_dependencies u2f order e)
      | None \<Rightarrow> stamp_dependencies u2f order e)"
  by (simp add: stamp_dependencies_def split: option.splits)

lemma stamp_dependencies_mtime:
  assumes "fid \<in> set order" and "u2f fid = Some f" and "path f = IndexFile.path e"
    and "path f \<noteq> []"
  shows "\<exists>fid' f'. fid' \<in> set order \<and> u2f fid' = Some f' \<and> path f' = IndexFile.path e
           \<and> IndexFile.mtime (stamp_dependencies u2f order e) = mtime f'"
  using assms(1)
proof (induction order rule: rev_induct)
  case Nil
  then show ?case by simp
next
  case (snoc x xs)
  let ?e = "stamp_dependencies u2f xs e"
  have pe: "IndexFile.path ?e = IndexFile.path e" by (simp add: stamp_dependencies_fields)
  show ?case
  proof (cases "u2f x")
    case None
    with snoc assms(2) have "fid \<in> set xs" by auto
    from snoc.IH [OF this] None show ?thesis
      by (auto simp: stamp_dependencies_snoc)
  next
    case (Some g)
    show ?thesis
    proof (cases "path g = IndexFile.path e")
      case True
      with assms(3,4) have "IndexFile.mtime (stamp_dependency g ?e) = mtime g"
        by (simp add: stamp_dependency_def pe)
      with Some True show ?thesis
        by (auto simp: stamp_dependencies_snoc)
    next
      case False
      with snoc.prems assms(2,3) Some have "fid \<in> set xs" by auto
      from snoc.IH [OF this] obtain fid' f' where
        "fid' \<in> set xs" "u2f fid' = Some f'" "path f' = IndexFile.path e"
        "IndexFile.mtime ?e = mtime f'" by blast
      moreover have "IndexFile.mtime (stamp_dependency g ?e) = IndexFile.mtime ?e"
        using False by (simp add: stamp_dependency_def pe)
      ultimately show ?thesis using Some
        by (auto simp: stamp_dependencies_snoc)
    qed
  qed
qed

lemma finalize_entry_fields:
  "IndexFile.path (finalize_entry main as u2f order d) = IndexFile.path d"
  "import_file (finalize_entry main as u2f order d) = main"
  by (simp_all add: finalize_entry_def stamp_dependencies_fields)

lemma finalize_entry_excl:
  assumes "dependencies d = Map.empty"
  shows "dependencies (finalize_entry main as u2f order d) (IndexFile.path d) = None
         \<and> dependencies (finalize_entry main as u2f order d) main = None"
proof -
  let ?e = "d\<lparr>import_file := main, args := as,
          lid2path := lid2path d @ map snd (uid2lid_and_path d),
          uid2lid_and_path := [],
          usr2func := (\<lambda>k. map_option uniquify_func (usr2func d k)),
          usr2type := (\<lambda>k. map_option uniquify_type (usr2type d k)),
          usr2var := (\<lambda>k. map_option uniquify_var (usr2var d k))\<rparr>"
  have "dependencies ?e (IndexFile.path ?e) = None" "dependencies ?e (import_file ?e) = None"
    using assms by simp_all
  from stamp_dependencies_excl [OF this, of u2f order] show ?thesis
    by (simp add: finalize_entry_def)
qed

lemma finalize_entry_mtime:
  assumes "fid \<in> set order" and "u2f fid = Some f" and "path f = IndexFile.path d"
    and "path f \<noteq> []"
  shows "\<exists>fid' f'. fid' \<in> set order \<and> u2f fid' = Some f' \<and> path f' = IndexFile.path d
           \<and> IndexFile.mtime (finalize_entry main as u2f order d) = mtime f'"
proof -
  let ?e = "d\<lparr>import_file := main, args := as,
          lid2path := lid2path d @ map snd (uid2lid_and_path d),
          uid2lid_and_path := [],
          usr2func := (\<lambda>k. map_option uniquify_func (usr2func d k)),
          usr2type := (\<lambda>k. map_option uniquify_type (usr2type d k)),
          usr2var := (\<lambda>k. map_option uniquify_var (usr2var d k))\<rparr>"
  have "path f = IndexFile.path ?e" using assms(3) by simp
  from stamp_dependencies_mtime [of fid order u2f f ?e, OF assms(1,2) this assms(4)] show ?thesis
    by (simp add: finalize_entry_def)
qed

lemma finalize_entry_keys_ok:
  assumes "keys_ok d"
  shows "keys_ok (finalize_entry main as u2f order d)"
  using assms
  by (auto simp: keys_ok_def finalize_entry_def stamp_dependencies_fields
      uniquify_func_def uniquify_type_def uniquify_var_def)

lemma finalize_member:
  assumes "e \<in> set (finalize main as order p)"
  shows "\<exists>fid f d. fid \<in> set order \<and> uid2file p fid = Some f \<and> db f = Some d
           \<and> e = finalize_entry main as (uid2file p) order d"
proof -
  from assms obtain fid where fid: "fid \<in> set order"
    and m: "e \<in> set (case uid2file p fid of
                          Some fl \<Rightarrow>
                            (case db fl of
                               Some entry \<Rightarrow> [finalize_entry main as (uid2file p) order entry]
                             | None \<Rightarrow> [])
                        | None \<Rightarrow> [])"
    by (auto simp: finalize_def)
  from m obtain f where f: "uid2file p fid = Some f" by (cases "uid2file p fid") auto
  from m f obtain d where d: "db f = Some d" by (cases "db f") auto
  from m f d fid show ?thesis by auto
qed

lemma index_result:
  assumes "index env main as nl run = (res, ok)" and "e \<in> set res"
  shows "\<exists>p. run_events env (events run) (IndexParam_new nl) = Some p
           \<and> res = finalize main as (uid2file_order run) p"
  using assms by (auto simp: index_def split: if_splits option.splits)

text \<open>
  C3. In every index that a completed pass returns, the dependency map holds neither the
  path of the index itself nor the main input path of the pass; and when the path of the
  index is not empty, its modification time is the one of a staged file with that path.
\<close>

theorem dependency_exclusion:
  assumes "index env main as nl run = (res, ok)" and "e \<in> set res"
  shows "IndexFile.path e \<notin> dom (dependencies e) \<and> main \<notin> dom (dependencies e)
         \<and> (\<exists>p fid f. run_events env (events run) (IndexParam_new nl) = Some p
               \<and> fid \<in> set (uid2file_order run) \<and> uid2file p fid = Some f
               \<and> path f = IndexFile.path e
               \<and> (IndexFile.path e \<noteq> [] \<longrightarrow> IndexFile.mtime e = mtime f))"
proof -
  from index_result [OF assms] obtain p where
    p: "run_events env (events run) (IndexParam_new nl) = Some p"
    and res: "res = finalize main as (uid2file_order run) p" by blast
  from run_events_ok [OF pass_ok_new p] have ok: "staged_ok p" by (simp add: pass_ok_def)
  from finalize_member [OF assms(2) [unfolded res]] obtain fid f d where
    fid: "fid \<in> set (uid2file_order run)" and f: "uid2file p fid = Some f" and d: "db f = Some d"
    and e: "e = finalize_entry main as (uid2file p) (uid2file_order run) d" by blast
  from ok f d have pd: "IndexFile.path d = path f" and dd: "dependencies d = Map.empty"
    by (auto simp: staged_ok_def)
  have pe: "IndexFile.path e = IndexFile.path d" by (simp add: e finalize_entry_fields)
  from finalize_entry_excl [OF dd, of main as "uid2file p" "uid2file_order run"]
  have 1: "IndexFile.path e \<notin> dom (dependencies e) \<and> main \<notin> dom (dependencies e)"
    by (simp add: e pe [unfolded e] domIff)
  show ?thesis
  proof (cases "IndexFile.path e = []")
    case True
    with 1 p fid f pd pe show ?thesis by auto
  next
    case False
    with pd pe have "path f \<noteq> []" by simp
    from finalize_entry_mtime [of fid "uid2file_order run" "uid2file p" f d main as,
        OF fid f pd [symmetric] this]
    obtain fid' f' where "fid' \<in> set (uid2file_order run)" "uid2file p fid' = Some f'"
      "path f' = IndexFile.path d" "IndexFile.mtime e = mtime f'"
      unfolding e by blast
    with 1 p pe show ?thesis by auto
  qed
qed

text \<open>
  C10. Entity lookup creates the entity on first access, with its key and an empty
  definition record, and returns the entity stored under the key; every index of a staged
  file stores each entity under its own key after any sequence of events of a pass, and
  so does every index that the pass returns. (The maps are maps: a key occurs once.)
\<close>

theorem entity_keys_invariant:
  "(usr2func d u = None \<longrightarrow>
      toFunc u d = (IndexFunc0\<lparr>usr := u\<rparr>, d\<lparr>usr2func := (usr2func d)(u \<mapsto> IndexFunc0\<lparr>usr := u\<rparr>)\<rparr>))
   \<and> (usr2type d u = None \<longrightarrow>
      toType u d = (IndexType0\<lparr>usr := u\<rparr>, d\<lparr>usr2type := (usr2type d)(u \<mapsto> IndexType0\<lparr>usr := u\<rparr>)\<rparr>))
   \<and> (usr2var d u = None \<longrightarrow>
      toVar u d = (IndexVar0\<lparr>usr := u\<rparr>, d\<lparr>usr2var := (usr2var d)(u \<mapsto> IndexVar0\<lparr>usr := u\<rparr>)\<rparr>))
   \<and> def (IndexFunc0\<lparr>usr := u\<rparr>) = FuncDef0 \<and> def (IndexType0\<lparr>usr := u\<rparr>) = TypeDef0
   \<and> def (IndexVar0\<lparr>usr := u\<rparr>) = VarDef0
   \<and> (keys_ok d \<longrightarrow>
        keys_ok (snd (toFunc u d)) \<and> keys_ok (snd (toType u d)) \<and> keys_ok (snd (toVar u d))
        \<and> usr (fst (toFunc u d)) = u \<and> usr (fst (toType u d)) = u \<and> usr (fst (toVar u d)) = u)
   \<and> (run_events env es (IndexParam_new nl) = Some p \<and> uid2file p fid = Some f \<and> db f = Some d'
        \<longrightarrow> keys_ok d')
   \<and> (index env main as nl run = (res, ok) \<and> e \<in> set res \<longrightarrow> keys_ok e)"
proof -
  have 1: "keys_ok d \<longrightarrow>
        keys_ok (snd (toFunc u d)) \<and> keys_ok (snd (toType u d)) \<and> keys_ok (snd (toVar u d))
        \<and> usr (fst (toFunc u d)) = u \<and> usr (fst (toType u d)) = u \<and> usr (fst (toVar u d)) = u"
    using same_file_toFunc [of d u] same_file_toType [of d u] same_file_toVar [of d u]
    by (simp add: same_file_def toFunc_usr toType_usr toVar_usr)
  have 2: "run_events env es (IndexParam_new nl) = Some p \<and> uid2file p fid = Some f \<and> db f = Some d'
        \<longrightarrow> keys_ok d'"
    using run_events_ok [OF pass_ok_new, of env es nl p]
    by (auto simp: pass_ok_def staged_ok_def)
  have 3: "index env main as nl run = (res, ok) \<and> e \<in> set res \<longrightarrow> keys_ok e"
  proof
    assume a: "index env main as nl run = (res, ok) \<and> e \<in> set res"
    then obtain q where q: "run_events env (events run) (IndexParam_new nl) = Some q"
      and res: "res = finalize main as (uid2file_order run) q"
      using index_result by blast
    from a res finalize_member obtain fid' f' d0 where
      "uid2file q fid' = Some f'" "db f' = Some d0"
      "e = finalize_entry main as (uid2file q) (uid2file_order run) d0" by blast
    moreover from run_events_ok [OF pass_ok_new q] have "staged_ok q" by (simp add: pass_ok_def)
    ultimately show "keys_ok e"
      by (auto simp: staged_ok_def intro: finalize_entry_keys_ok)
  qed
  show ?thesis
    using 1 2 3
    by (simp add: toFunc_def toType_def toVar_def IndexFunc0_def IndexType0_def IndexVar0_def)
qed

text \<open>
  C8. When the invocation cannot be built the pass returns the empty collection and ok
  stays true; when the engine faults (also by a write through a null pointer in a
  handler) or Execute reports an error, it returns the empty collection with ok false.
  The pass is a total function: every failure is a returned value, ok false always comes
  with the empty collection, and a non-empty collection with ok true.
\<close>

theorem index_error_outcomes:
  "(\<not> buildCompilerInvocation run \<longrightarrow> index env main as nl run = ([], True))
   \<and> (buildCompilerInvocation run \<and> crashes run \<longrightarrow> index env main as nl run = ([], False))
   \<and> (buildCompilerInvocation run \<and> run_events env (events run) (IndexParam_new nl) = None
        \<longrightarrow> index env main as nl run = ([], False))
   \<and> (buildCompilerInvocation run \<and> Execute_error run \<noteq> None
        \<longrightarrow> index env main as nl run = ([], False))
   \<and> (\<not> snd (index env main as nl run) \<longrightarrow> fst (index env main as nl run) = [])
   \<and> (fst (index env main as nl run) \<noteq> [] \<longrightarrow>
        buildCompilerInvocation run \<and> hasTarget run \<and> \<not> crashes run \<and> BeginSourceFile run
        \<and> Execute_error run = None \<and> snd (index env main as nl run))"
proof -
  have 1: "\<not> buildCompilerInvocation run \<longrightarrow> index env main as nl run = ([], True)"
    by (simp add: index_def)
  have 2: "buildCompilerInvocation run \<and> crashes run \<longrightarrow> index env main as nl run = ([], False)"
    by (simp add: index_def)
  have 3: "buildCompilerInvocation run \<and> run_events env (events run) (IndexParam_new nl) = None
        \<longrightarrow> index env main as nl run = ([], False)"
    by (simp add: index_def)
  have 4: "buildCompilerInvocation run \<and> Execute_error run \<noteq> None
        \<longrightarrow> index env main as nl run = ([], False)"
    by (cases "run_events env (events run) (IndexParam_new nl)") (auto simp: index_def)
  have 5: "fst (index env main as nl run) \<noteq> [] \<longrightarrow>
        buildCompilerInvocation run \<and> hasTarget run \<and> \<not> crashes run \<and> BeginSourceFile run
        \<and> Execute_error run = None \<and> snd (index env main as nl run)"
    by (cases "run_events env (events run) (IndexParam_new nl)"; cases "Execute_error run")
      (simp_all add: index_def)
  have 6: "\<not> snd (index env main as nl run) \<longrightarrow> fst (index env main as nl run) = []"
    using 5 by blast
  from 1 2 3 4 5 6 show ?thesis by blast
qed

theorem index_error_outcomes_witness:
  "index example_env ''/a.cc'' [] False (example_Run False False None) = ([], True)
   \<and> index example_env ''/a.cc'' [] False (example_Run True True None) = ([], False)
   \<and> index example_env ''/a.cc'' [] False (example_Run True False (Some ''error'')) = ([], False)
   \<and> fst (index example_env ''/a.cc'' [] False (example_Run True False None)) \<noteq> []
   \<and> snd (index example_env ''/a.cc'' [] False (example_Run True False None))"
proof -
  have 1: "\<not> buildCompilerInvocation (example_Run False False None)"
    by (simp add: example_Run_def)
  have 2: "buildCompilerInvocation (example_Run True True None) \<and> crashes (example_Run True True None)"
    by (simp add: example_Run_def)
  have 3: "buildCompilerInvocation (example_Run True False (Some ''error''))
      \<and> Execute_error (example_Run True False (Some ''error'')) \<noteq> None"
    by (simp add: example_Run_def)
  have 4: "fst (index example_env ''/a.cc'' [] False (example_Run True False None)) \<noteq> []"
    by (simp add: example_index)
  have a: "index example_env ''/a.cc'' [] False (example_Run False False None) = ([], True)"
    by (rule mp [OF index_error_outcomes [THEN conjunct1] 1])
  have b: "index example_env ''/a.cc'' [] False (example_Run True True None) = ([], False)"
    by (rule mp [OF index_error_outcomes [THEN conjunct2, THEN conjunct1] 2])
  have c: "index example_env ''/a.cc'' [] False (example_Run True False (Some ''error'')) = ([], False)"
    by (rule mp [OF index_error_outcomes
          [THEN conjunct2, THEN conjunct2, THEN conjunct2, THEN conjunct1] 3])
  have "buildCompilerInvocation (example_Run True False None) \<and> hasTarget (example_Run True False None)
      \<and> \<not> crashes (example_Run True False None) \<and> BeginSourceFile (example_Run True False None)
      \<and> Execute_error (example_Run True False None) = None
      \<and> snd (index example_env ''/a.cc'' [] False (example_Run True False None))"
    by (rule mp [OF index_error_outcomes
          [THEN conjunct2, THEN conjunct2, THEN conjunct2, THEN conjunct2, THEN conjunct2] 4])
  then have d: "snd (index example_env ''/a.cc'' [] False (example_Run True False None))"
    by (elim conjE)
  from a b c 4 d show ?thesis by (intro conjI)
qed

theorem dependency_exclusion_witness:
  "fst (index example_env ''/a.cc'' [] False (example_Run True False None)) \<noteq> []
   \<and> IndexFile.path (hd (fst (index example_env ''/a.cc'' [] False (example_Run True False None))))
       \<notin> dom (dependencies (hd (fst (index example_env ''/a.cc'' [] False (example_Run True False None)))))
   \<and> ''/a.cc'' \<notin> dom (dependencies (hd (fst (index example_env ''/a.cc'' [] False (example_Run True False None)))))
   \<and> IndexFile.path (hd (fst (index example_env ''/a.cc'' [] False (example_Run True False None)))) \<noteq> []"
proof -
  let ?r = "index example_env ''/a.cc'' [] False (example_Run True False None)"
  have ne: "fst ?r \<noteq> []" by (simp add: example_index)
  then have m: "hd (fst ?r) \<in> set (fst ?r)" by simp
  have pe: "IndexFile.path (hd (fst ?r)) \<noteq> []"
    by (simp add: example_index finalize_entry_fields IndexFile_new_def)
  note de = dependency_exclusion [OF prod.collapse [symmetric] m]
  have x1: "IndexFile.path (hd (fst ?r)) \<notin> dom (dependencies (hd (fst ?r)))"
    by (rule de [THEN conjunct1])
  have x2: "''/a.cc'' \<notin> dom (dependencies (hd (fst ?r)))"
    by (rule de [THEN conjunct2, THEN conjunct1])
  from ne x1 x2 pe show ?thesis by (intro conjI)
qed

theorem entity_keys_invariant_witness:
  "usr2func (IndexFile_new ''/a.cc'' [] False) 5 = None
   \<and> toFunc 5 (IndexFile_new ''/a.cc'' [] False) =
       (IndexFunc0\<lparr>usr := 5\<rparr>,
        (IndexFile_new ''/a.cc'' [] False)\<lparr>usr2func :=
           (usr2func (IndexFile_new ''/a.cc'' [] False))(5 \<mapsto> IndexFunc0\<lparr>usr := 5\<rparr>)\<rparr>)
   \<and> keys_ok (IndexFile_new ''/a.cc'' [] False)
   \<and> keys_ok (snd (toFunc 5 (IndexFile_new ''/a.cc'' [] False)))
   \<and> keys_ok (snd (toType 5 (IndexFile_new ''/a.cc'' [] False)))
   \<and> keys_ok (snd (toVar 5 (IndexFile_new ''/a.cc'' [] False)))
   \<and> run_events example_env [EvFileChanged True 1, EvFileChanged True 2] (IndexParam_new False)
       = Some example_Param
   \<and> uid2file example_Param 1 = Some example_File1
   \<and> db example_File1 = Some (IndexFile_new ''/a.cc'' [] False)
   \<and> hd (fst (index example_env ''/a.cc'' [] False (example_Run True False None)))
       \<in> set (fst (index example_env ''/a.cc'' [] False (example_Run True False None)))
   \<and> keys_ok (hd (fst (index example_env ''/a.cc'' [] False (example_Run True False None))))"
proof -
  let ?d = "IndexFile_new ''/a.cc'' [] False"
  let ?r = "index example_env ''/a.cc'' [] False (example_Run True False None)"
  have 1: "usr2func ?d 5 = None" "usr2type ?d 5 = None" "usr2var ?d 5 = None"
    by (simp_all add: IndexFile_new_def)
  have 2: "keys_ok ?d" by (simp add: keys_ok_def IndexFile_new_def)
  have 3: "uid2file example_Param 1 = Some example_File1"
    "db example_File1 = Some ?d"
    by (simp_all add: example_Param_def example_File1_def)
  have 4: "hd (fst ?r) \<in> set (fst ?r)" by (simp add: example_index)
  have 5: "?r = (fst ?r, snd ?r)" by simp
  note t = entity_keys_invariant [of ?d 5 example_env
      "[EvFileChanged True 1, EvFileChanged True 2]" False example_Param 1 example_File1 ?d
      "''/a.cc''" "[]" "example_Run True False None" "fst ?r" "snd ?r" "hd (fst ?r)"]
  have a: "toFunc 5 ?d = (IndexFunc0\<lparr>usr := 5\<rparr>,
        ?d\<lparr>usr2func := (usr2func ?d)(5 \<mapsto> IndexFunc0\<lparr>usr := 5\<rparr>)\<rparr>)"
    by (rule mp [OF t [THEN conjunct1] 1(1)])
  have "keys_ok (snd (toFunc 5 ?d)) \<and> keys_ok (snd (toType 5 ?d)) \<and> keys_ok (snd (toVar 5 ?d))
        \<and> usr (fst (toFunc 5 ?d)) = 5 \<and> usr (fst (toType 5 ?d)) = 5 \<and> usr (fst (toVar 5 ?d)) = 5"
    by (rule mp [OF t [THEN conjunct2, THEN conjunct2, THEN conjunct2, THEN conjunct2,
            THEN conjunct2, THEN conjunct2, THEN conjunct1] 2])
  note k = this
  have b: "keys_ok (snd (toFunc 5 ?d))" "keys_ok (snd (toType 5 ?d))"
    "keys_ok (snd (toVar 5 ?d))"
    by (rule k [THEN conjunct1], rule k [THEN conjunct2, THEN conjunct1],
        rule k [THEN conjunct2, THEN conjunct2, THEN conjunct1])
  have c: "keys_ok (hd (fst ?r))"
    by (rule mp [OF t [THEN conjunct2, THEN conjunct2, THEN conjunct2, THEN conjunct2,
            THEN conjunct2, THEN conjunct2, THEN conjunct2, THEN conjunct2]])
      (intro conjI 5 4)
  from 1(1) a 2 b example_run 3 4 c show ?thesis by (intro conjI)
qed

subsection \<open>Identity resolution\<close>

lemma pass_ok_cache_ext: "pass_ok env p \<Longrightarrow> cache_ext p p' \<Longrightarrow> pass_ok env p'"
  by (simp add: pass_ok_def cache_ext_def staged_ok_def stamps_ok_def)

lemma pass_ext_cache_ext: "cache_ext p p' \<Longrightarrow> pass_ext p p'"
  by (simp add: pass_ext_def cache_ext_def)

lemma getUsr_first:
  "Decl2Info p (getCanonicalDecl (attrs D)) = None \<Longrightarrow>
     rendered (snd (getUsr env D p)) = rendered p @ [getCanonicalDecl (attrs D)]
     \<and> fst (fst (getUsr env D p)) = hashUsr env (generateUSRForDecl (attrs D))"
  by (simp add: getUsr_def Let_def)

lemma getUsr_again:
  assumes ok: "pass_ok env p" and g: "getUsr env D p = ((u, i), p1)"
    and r: "run_events env es p1 = Some p2"
    and c: "getCanonicalDecl (attrs D') = getCanonicalDecl (attrs D)"
  shows "getUsr env D' p2 = ((u, i), p2)"
proof -
  have ce: "cache_ext p p1" using cache_ext_getUsr [of p env D] g by simp
  have ok1: "pass_ok env p1" by (rule pass_ok_cache_ext [OF ok ce])
  from run_events_ok [OF ok1 r] have "pass_ext p1 p2" by simp
  moreover from getUsr_stores [OF g] have "Decl2Info p1 (getCanonicalDecl (attrs D)) = Some i"
    and u: "info_usr i = u" by simp_all
  ultimately have "Decl2Info p2 (getCanonicalDecl (attrs D')) = Some i"
    using c by (simp add: pass_ext_def)
  from getUsr_cached [OF this] u show ?thesis by simp
qed

text \<open>
  C5. The first resolution of a canonical node renders it (once) and hashes the engine's
  reference. After that, and whatever events the pass handles in between, resolving any
  occurrence with the same canonical node returns the same key and the identical cache
  entry (the same short and qualified names) and leaves the state as it is: nothing is
  rendered again. In every state of a pass each canonical node has been rendered at most
  once, and the rendered nodes are the keys of the cache.
\<close>

theorem getUsr_identity_stable:
  "(Decl2Info p (getCanonicalDecl (attrs D)) = None \<longrightarrow>
      rendered (snd (getUsr env D p)) = rendered p @ [getCanonicalDecl (attrs D)]
      \<and> fst (fst (getUsr env D p)) = hashUsr env (generateUSRForDecl (attrs D)))
   \<and> (run_events env es1 (IndexParam_new nl) = Some p \<and> getUsr env D p = ((u, i), p1)
        \<and> run_events env es2 p1 = Some p2
        \<and> getCanonicalDecl (attrs D') = getCanonicalDecl (attrs D)
        \<longrightarrow> getUsr env D' p2 = ((u, i), p2))
   \<and> (run_events env es1 (IndexParam_new nl) = Some p \<longrightarrow>
        distinct (rendered p) \<and> set (rendered p) = dom (Decl2Info p))"
proof -
  have 1: "run_events env es1 (IndexParam_new nl) = Some p \<longrightarrow> pass_ok env p"
    using run_events_ok [OF pass_ok_new, of env es1 nl p] by simp
  then have "run_events env es1 (IndexParam_new nl) = Some p \<longrightarrow>
        distinct (rendered p) \<and> set (rendered p) = dom (Decl2Info p)"
    by (simp add: pass_ok_def cache_ok_def)
  with 1 getUsr_first [of p D env] getUsr_again [of env p D u i p1 es2 p2 D']
  show ?thesis by blast
qed

theorem getUsr_identity_stable_witness:
  "Decl2Info example_Param (getCanonicalDecl (attrs (simpleDecl CXXRecord 1 ''c:@S@A'' (Some (''A'', ''A''))))) = None
   \<and> rendered (snd (getUsr example_env (simpleDecl CXXRecord 1 ''c:@S@A'' (Some (''A'', ''A''))) example_Param)) = [1]
   \<and> fst (fst (getUsr example_env (simpleDecl CXXRecord 1 ''c:@S@A'' (Some (''A'', ''A''))) example_Param)) = 6
   \<and> run_events example_env [EvFileChanged True 1, EvFileChanged True 2] (IndexParam_new False)
       = Some example_Param
   \<and> run_events example_env []
        (snd (getUsr example_env (simpleDecl CXXRecord 1 ''c:@S@A'' (Some (''A'', ''A''))) example_Param))
       = Some (snd (getUsr example_env (simpleDecl CXXRecord 1 ''c:@S@A'' (Some (''A'', ''A''))) example_Param))
   \<and> getUsr example_env (simpleDecl CXXRecord 1 ''c:@S@B'' (Some (''B'', ''B'')))
        (snd (getUsr example_env (simpleDecl CXXRecord 1 ''c:@S@A'' (Some (''A'', ''A''))) example_Param))
       = (fst (getUsr example_env (simpleDecl CXXRecord 1 ''c:@S@A'' (Some (''A'', ''A''))) example_Param),
          snd (getUsr example_env (simpleDecl CXXRecord 1 ''c:@S@A'' (Some (''A'', ''A''))) example_Param))
   \<and> distinct (rendered example_Param)"
proof -
  let ?A = "simpleDecl CXXRecord 1 ''c:@S@A'' (Some (''A'', ''A''))"
  let ?B = "simpleDecl CXXRecord 1 ''c:@S@B'' (Some (''B'', ''B''))"
  let ?g = "getUsr example_env ?A example_Param"
  note t = getUsr_identity_stable [of example_Param ?A example_env
      "[EvFileChanged True 1, EvFileChanged True 2]" False "fst (fst ?g)" "snd (fst ?g)" "snd ?g"
      "[]" "snd ?g" ?B]
  have c: "getCanonicalDecl (attrs ?A) = 1" "getCanonicalDecl (attrs ?B) = 1"
    "generateUSRForDecl (attrs ?A) = ''c:@S@A''"
    by (simp_all add: simpleDecl_def simpleAttrs_def)
  have 1: "Decl2Info example_Param (getCanonicalDecl (attrs ?A)) = None"
    by (simp add: c example_Param_def)
  have r0: "rendered example_Param = []" by (simp add: example_Param_def)
  from mp [OF t [THEN conjunct1] 1]
  have 2: "rendered (snd ?g) = [1]" and 3: "fst (fst ?g) = 6"
    by (simp_all add: simpleDecl_def simpleAttrs_def r0 example_env_simps)
  have 4: "run_events example_env [] (snd ?g) = Some (snd ?g)" by simp
  have 5: "?g = ((fst (fst ?g), snd (fst ?g)), snd ?g)" by simp
  have "getUsr example_env ?B (snd ?g) = ((fst (fst ?g), snd (fst ?g)), snd ?g)"
    by (rule mp [OF t [THEN conjunct2, THEN conjunct1]]) (intro conjI example_run 5 4, simp add: simpleDecl_def simpleAttrs_def)
  then have 6: "getUsr example_env ?B (snd ?g) = (fst ?g, snd ?g)" by simp
  have 7: "distinct (rendered example_Param)" by (simp add: r0)
  from 1 2 3 example_run 4 6 7 show ?thesis by (intro conjI)
qed

subsection \<open>File staging and the staleness cache\<close>

lemma consumeFile_first:
  assumes "uid2file p fid = None" and "getFileEntryForID env fid = Some fe"
  shows "vfs_calls (snd (consumeFile env fid p)) =
           vfs_calls p @ [(fid, pathFromFileEntry fe, staged_mtime env fe,
                           if param_no_linkage p then 3 else 1)]
         \<and> (fst (consumeFile env fid p) = None) =
            (\<not> vfs_stamp env (map snd (vfs_calls p)) (pathFromFileEntry fe)
                 (staged_mtime env fe) (if param_no_linkage p then 3 else 1))"
  using assms by (simp add: consumeFile_eq seenFile_def Let_def staged_mtime_def)

lemma consumeFile_no_entry:
  assumes "uid2file p fid = None" and "getFileEntryForID env fid = None"
  shows "vfs_calls (snd (consumeFile env fid p)) = vfs_calls p
         \<and> fst (consumeFile env fid p) = None
         \<and> uid2file (snd (consumeFile env fid p)) fid \<noteq> None"
  using assms by (simp add: consumeFile_eq seenFile_def File0_def)

lemma consumeFile_later:
  assumes "uid2file p fid = Some f"
  shows "consumeFile env fid p = (db f, p)"
  using assms by (simp add: consumeFile_eq seenFile_seen)

lemma stamps_once:
  assumes "pass_ok env p"
  shows "distinct (map fst (vfs_calls p))
         \<and> (fid \<in> fst ` set (vfs_calls p)) =
            (uid2file p fid \<noteq> None \<and> getFileEntryForID env fid \<noteq> None)"
proof -
  from assms have s: "stamps_ok env p" by (simp add: pass_ok_def)
  then have d: "distinct (map fst (vfs_calls p))" by (simp add: stamps_ok_def)
  have "(fid \<in> fst ` set (vfs_calls p)) =
            (uid2file p fid \<noteq> None \<and> getFileEntryForID env fid \<noteq> None)"
  proof
    assume "fid \<in> fst ` set (vfs_calls p)"
    then obtain c where c: "c \<in> set (vfs_calls p)" "fst c = fid" by auto
    with s obtain fe fl where "getFileEntryForID env (fst c) = Some fe" "uid2file p (fst c) = Some fl"
      unfolding stamps_ok_def by blast
    with c show "uid2file p fid \<noteq> None \<and> getFileEntryForID env fid \<noteq> None" by simp
  next
    assume "uid2file p fid \<noteq> None \<and> getFileEntryForID env fid \<noteq> None"
    with s show "fid \<in> fst ` set (vfs_calls p)"
      unfolding stamps_ok_def by blast
  qed
  with d show ?thesis by simp
qed

lemma cached_null:
  assumes ok: "pass_ok env p" and f: "uid2file p fid = Some f" and d: "db f = None"
    and r: "run_events env es p = Some p'"
  shows "consumeFile env fid p' = (None, p')"
proof -
  from run_events_ok [OF ok r] have "pass_ext p p'" by simp
  with f d obtain f' where "uid2file p' fid = Some f'" "db f' = None"
    unfolding pass_ext_def by blast
  with consumeFile_later show ?thesis by simp
qed

text \<open>
  C4, as amended. The first staging call for a handle that has a file entry consults the
  staleness cache once, with the path, the modification time and the mode tag (3 for a
  pass with no_linkage, 1 otherwise), and yields no index exactly when the cache says
  no; the first staging call for a handle without a file entry does not consult the
  cache and yields no index. A staging call for a handle seen before changes nothing.
  In every state of a pass the cache has been consulted at most once for a handle, and
  for exactly the staged handles that have a file entry. A handle staged without an
  index stays so: after any further events, staging it again returns no index and
  changes nothing.
\<close>

theorem staging_consults_cache:
  "(uid2file p fid = None \<and> getFileEntryForID env fid = Some fe \<longrightarrow>
      vfs_calls (snd (consumeFile env fid p)) =
        vfs_calls p @ [(fid, pathFromFileEntry fe, staged_mtime env fe,
                        if param_no_linkage p then 3 else 1)]
      \<and> (fst (consumeFile env fid p) = None) =
         (\<not> vfs_stamp env (map snd (vfs_calls p)) (pathFromFileEntry fe)
              (staged_mtime env fe) (if param_no_linkage p then 3 else 1)))
   \<and> (uid2file p fid = None \<and> getFileEntryForID env fid = None \<longrightarrow>
        vfs_calls (snd (consumeFile env fid p)) = vfs_calls p
        \<and> fst (consumeFile env fid p) = None
        \<and> uid2file (snd (consumeFile env fid p)) fid \<noteq> None)
   \<and> (uid2file p fid = Some f \<longrightarrow> consumeFile env fid p = (db f, p))
   \<and> (run_events env es (IndexParam_new nl) = Some p \<longrightarrow>
        distinct (map fst (vfs_calls p))
        \<and> (fid \<in> fst ` set (vfs_calls p)) =
           (uid2file p fid \<noteq> None \<and> getFileEntryForID env fid \<noteq> None))
   \<and> (run_events env es (IndexParam_new nl) = Some p \<and> uid2file p fid = Some f \<and> db f = None
        \<and> run_events env es' p = Some p' \<longrightarrow> consumeFile env fid p' = (None, p'))"
proof -
  have ok: "run_events env es (IndexParam_new nl) = Some p \<longrightarrow> pass_ok env p"
    using run_events_ok [OF pass_ok_new, of env es nl p] by simp
  with consumeFile_first [of p fid env fe] consumeFile_no_entry [of p fid env]
    consumeFile_later [of p fid f env] stamps_once [of env p fid]
    cached_null [of env p fid f es' p']
  show ?thesis by blast
qed

theorem staging_consults_cache_witness:
  "uid2file (IndexParam_new False) 2 = None
   \<and> vfs_calls (snd (consumeFile example_env 2 (IndexParam_new False))) = [(2, ''/a.h'', 7, 1)]
   \<and> fst (consumeFile example_env 2 (IndexParam_new False)) = None
   \<and> uid2file (IndexParam_new False) 3 = None
   \<and> vfs_calls (snd (consumeFile example_env 3 (IndexParam_new False))) = []
   \<and> run_events example_env [EvFileChanged True 1, EvFileChanged True 2] (IndexParam_new False)
        = Some example_Param
   \<and> uid2file example_Param 2 = Some example_File2
   \<and> db example_File2 = None
   \<and> distinct (map fst (vfs_calls example_Param))
   \<and> 2 \<in> fst ` set (vfs_calls example_Param)
   \<and> run_events example_env [EvFileChanged True 3] example_Param
        = Some (FileChanged example_env True 3 example_Param)
   \<and> consumeFile example_env 2 (FileChanged example_env True 3 example_Param)
        = (None, FileChanged example_env True 3 example_Param)"
proof -
  let ?p0 = "IndexParam_new False"
  let ?fe = "\<lparr> pathFromFileEntry = ''/a.h'', getModificationTime = 7,
                absolutePath = Some ''/a.h'' \<rparr>"
  let ?q = "FileChanged example_env True 3 example_Param"
  have n: "uid2file ?p0 2 = None" "uid2file ?p0 3 = None" "vfs_calls ?p0 = []"
    "param_no_linkage ?p0 = False"
    by (simp_all add: IndexParam_new_def)
  note t2 = staging_consults_cache [of ?p0 2 example_env ?fe example_File2
      "[EvFileChanged True 1, EvFileChanged True 2]" False "[EvFileChanged True 3]" ?q]
  note t3 = staging_consults_cache [of ?p0 3 example_env ?fe example_File2
      "[EvFileChanged True 1, EvFileChanged True 2]" False "[EvFileChanged True 3]" ?q]
  note tp = staging_consults_cache [of example_Param 2 example_env ?fe example_File2
      "[EvFileChanged True 1, EvFileChanged True 2]" False "[EvFileChanged True 3]" ?q]
  have m: "staged_mtime example_env ?fe = 7" by (simp add: staged_mtime_def)
  from mp [OF t2 [THEN conjunct1]] n(1) example_env_simps(2)
  have a: "vfs_calls (snd (consumeFile example_env 2 ?p0)) = [(2, ''/a.h'', 7, 1)]"
    and b: "fst (consumeFile example_env 2 ?p0) = None"
    by (simp_all add: n m example_env_simps)
  from mp [OF t3 [THEN conjunct2, THEN conjunct1]] n(2) example_env_simps(3)
  have c: "vfs_calls (snd (consumeFile example_env 3 ?p0)) = []"
    by (simp add: n)
  have f2: "uid2file example_Param 2 = Some example_File2" "db example_File2 = None"
    by (simp_all add: example_Param_def example_File2_def)
  from mp [OF tp [THEN conjunct2, THEN conjunct2, THEN conjunct2, THEN conjunct1] example_run]
  have d: "distinct (map fst (vfs_calls example_Param))"
    and e: "2 \<in> fst ` set (vfs_calls example_Param)"
    using f2 by (simp_all add: example_env_simps)
  have r: "run_events example_env [EvFileChanged True 3] example_Param = Some ?q" by simp
  have g: "consumeFile example_env 2 ?q = (None, ?q)"
    by (rule mp [OF tp [THEN conjunct2, THEN conjunct2, THEN conjunct2, THEN conjunct2]])
      (intro conjI example_run f2 r)
  from n(1) a b n(2) c example_run f2 d e r g show ?thesis by (intro conjI)
qed

text \<open>
  The handle 3 has no file entry: staging it records the handle, and the staleness cache
  has not been consulted once for it.
\<close>

theorem staging_once_counterexample:
  "uid2file (snd (consumeFile example_env 3 (IndexParam_new False))) 3 \<noteq> None
   \<and> length (filter (\<lambda>c. fst c = 3)
        (vfs_calls (snd (consumeFile example_env 3 (IndexParam_new False))))) \<noteq> 1"
  by (simp add: consumeFile_eq seenFile_def example_env_simps IndexParam_new_def)

subsection \<open>Macro definitions\<close>

lemma store_db_lookup:
  assumes "uid2file p fid = Some f" and "db f = Some d0"
  shows "uid2file (store_db fid (d, p)) fid = Some (f\<lparr>db := Some d\<rparr>)"
  using assms by (simp add: store_db_def update_db_def)

lemma withVar_lookup: "usr2var (withVar k g d) k = Some (g (fst (toVar k d)))"
  by (simp add: withVar_def toVar_def split: option.splits)

lemma toVar_withVar: "fst (toVar k (withVar k g d)) = g (fst (toVar k d))"
  by (simp add: withVar_def toVar_def split: option.splits)

lemma MacroDefined_admitted:
  assumes "consumeFile env (mac_fid ev) p = (Some d, p1)"
  shows "\<exists>f. uid2file p1 (mac_fid ev) = Some f \<and> db f = Some d
           \<and> MacroDefined env ev p =
               p1\<lparr>uid2file := (uid2file p1)(mac_fid ev \<mapsto>
                  f\<lparr>db := Some (withVar (hashUsr env (''@macro@'' @ mac_Name ev))
                                   (MacroDefined_var env ev) d)\<rparr>)\<rparr>"
proof -
  from consumeFile_Some [OF assms] obtain f where
    f: "uid2file p1 (mac_fid ev) = Some f" "db f = Some d" by blast
  with assms show ?thesis
    by (simp add: MacroDefined_def store_db_def update_db_def getMacro_def)
qed

lemma macro_entity_MacroDefined:
  assumes "consumeFile env (mac_fid ev) p = (Some d, p1)"
  shows "macro_entity env (mac_Name ev) (mac_fid ev) (MacroDefined env ev p) =
           Some (MacroDefined_var env ev
                   (fst (toVar (hashUsr env (''@macro@'' @ mac_Name ev)) d)))"
proof -
  from MacroDefined_admitted [OF assms] obtain f where
    "MacroDefined env ev p =
               p1\<lparr>uid2file := (uid2file p1)(mac_fid ev \<mapsto>
                  f\<lparr>db := Some (withVar (hashUsr env (''@macro@'' @ mac_Name ev))
                                   (MacroDefined_var env ev) d)\<rparr>)\<rparr>" by blast
  then show ?thesis by (simp add: macro_entity_def withVar_lookup)
qed

lemma consumeFile_after_MacroDefined:
  assumes "consumeFile env (mac_fid ev) p = (Some d, p1)"
  shows "consumeFile env (mac_fid ev) (MacroDefined env ev p) =
           (Some (withVar (hashUsr env (''@macro@'' @ mac_Name ev)) (MacroDefined_var env ev) d),
            MacroDefined env ev p)"
proof -
  from MacroDefined_admitted [OF assms] obtain f where
    m: "MacroDefined env ev p =
               p1\<lparr>uid2file := (uid2file p1)(mac_fid ev \<mapsto>
                  f\<lparr>db := Some (withVar (hashUsr env (''@macro@'' @ mac_Name ev))
                                   (MacroDefined_var env ev) d)\<rparr>)\<rparr>" by blast
  have "uid2file (MacroDefined env ev p) (mac_fid ev) =
      Some (f\<lparr>db := Some (withVar (hashUsr env (''@macro@'' @ mac_Name ev))
                                   (MacroDefined_var env ev) d)\<rparr>)"
    unfolding m by simp
  from consumeFile_later [OF this] show ?thesis by simp
qed

lemma within_max_lines_pos:
  assumes "1 \<le> maxInitializerLines env" and "maxInitializerLines env < 2 ^ 31"
  shows "within_max_lines env Buf \<longleftrightarrow>
           int (count_list Buf (CHR 0x0A)) + 1 \<le> maxInitializerLines env"
proof -
  have "(maxInitializerLines env - 1) mod 2 ^ 64 = maxInitializerLines env - 1"
    using assms by (intro mod_pos_pos_trivial) simp_all
  then show ?thesis by (auto simp: within_max_lines_def)
qed

lemma within_max_lines_zero:
  assumes "maxInitializerLines env = 0" and "length Buf < 2 ^ 64 - 1"
  shows "within_max_lines env Buf"
proof -
  have "count_list Buf (CHR 0x0A) \<le> length Buf" by (rule count_le_length)
  with assms show ?thesis by (simp add: within_max_lines_def)
qed

lemma MacroDefined_var_fields:
  "kind (def (MacroDefined_var env ev old)) = Macro
   \<and> parent_kind (def (MacroDefined_var env ev old)) = SK_File
   \<and> spell (def (MacroDefined_var env ev old)) =
        Some \<lparr> use_range = mac_range ev, use_role = Role_Definition, file_id = - 1,
               extent = mac_extent ev \<rparr>
   \<and> declarations (MacroDefined_var env ev old) =
        declarations old @ (case spell (def old) of Some sp \<Rightarrow> [sp] | None \<Rightarrow> [])
   \<and> uses (MacroDefined_var env ev old) = uses old"
  by (simp add: MacroDefined_var_def Let_def split: option.splits)

lemma MacroDefined_var_names:
  "(detailed_name (def old) = [] \<longrightarrow>
      detailed_name (def (MacroDefined_var env ev old)) = mac_Name ev
      \<and> hover (def (MacroDefined_var env ev old)) =
          (if within_max_lines env (mac_source ev) then ''#define '' @ mac_source ev
           else ''#define '' @ mac_Name ev))
   \<and> (detailed_name (def old) \<noteq> [] \<longrightarrow>
      detailed_name (def (MacroDefined_var env ev old)) = detailed_name (def old)
      \<and> hover (def (MacroDefined_var env ev old)) = hover (def old))"
  by (simp add: MacroDefined_var_def Let_def split: option.splits)

text \<open>
  C7, as amended. When the file of the event is admitted, the macro entity under the key
  hash("@macro@" + spelling) has fine kind Macro and container kind File after the event;
  its definition record is the new one, and the record it had before, if any, is now the
  last of its declarations. When the entity had no detailed name yet, the name becomes
  the spelling and, for a configured maximum of at least one line, the hover text is
  "#define " followed by the source of the definition when its line count is within the
  maximum, else "#define " followed by the spelling; when the entity already had a
  detailed name, name and hover text stay as they were. When the file is not admitted,
  the event changes nothing beyond the staging.
\<close>

theorem MacroDefined_entity:
  "(consumeFile env (mac_fid ev) p = (Some d, p1) \<longrightarrow>
      (\<exists>var. macro_entity env (mac_Name ev) (mac_fid ev) (MacroDefined env ev p) = Some var
         \<and> kind (def var) = Macro \<and> parent_kind (def var) = SK_File
         \<and> spell (def var) =
             Some \<lparr> use_range = mac_range ev, use_role = Role_Definition, file_id = - 1,
                    extent = mac_extent ev \<rparr>
         \<and> declarations var =
             declarations (fst (toVar (hashUsr env (''@macro@'' @ mac_Name ev)) d))
             @ (case spell (def (fst (toVar (hashUsr env (''@macro@'' @ mac_Name ev)) d))) of
                  Some sp \<Rightarrow> [sp] | None \<Rightarrow> [])
         \<and> (detailed_name (def (fst (toVar (hashUsr env (''@macro@'' @ mac_Name ev)) d))) = []
              \<longrightarrow> detailed_name (def var) = mac_Name ev
                \<and> (1 \<le> maxInitializerLines env \<and> maxInitializerLines env < 2 ^ 31 \<longrightarrow>
                     hover (def var) =
                       (if int (count_list (mac_source ev) (CHR 0x0A)) + 1 \<le> maxInitializerLines env
                        then ''#define '' @ mac_source ev else ''#define '' @ mac_Name ev)))
         \<and> (detailed_name (def (fst (toVar (hashUsr env (''@macro@'' @ mac_Name ev)) d))) \<noteq> []
              \<longrightarrow> detailed_name (def var)
                    = detailed_name (def (fst (toVar (hashUsr env (''@macro@'' @ mac_Name ev)) d)))
                \<and> hover (def var)
                    = hover (def (fst (toVar (hashUsr env (''@macro@'' @ mac_Name ev)) d))))))
   \<and> (consumeFile env (mac_fid ev) p = (None, p1) \<longrightarrow> MacroDefined env ev p = p1)"
proof -
  let ?old = "fst (toVar (hashUsr env (''@macro@'' @ mac_Name ev)) d)"
  have 2: "consumeFile env (mac_fid ev) p = (None, p1) \<longrightarrow> MacroDefined env ev p = p1"
    by (simp add: MacroDefined_def)
  from macro_entity_MacroDefined [of env ev p d p1] MacroDefined_var_fields [of env ev ?old]
    MacroDefined_var_names [of ?old env ev] within_max_lines_pos [of env "mac_source ev"] 2
  show ?thesis by auto
qed

lemma example_consume1:
  "consumeFile env 1 example_Param = (Some (IndexFile_new ''/a.cc'' [] False), example_Param)"
proof -
  have "uid2file example_Param 1 = Some example_File1"
    by (simp add: example_Param_def)
  from consumeFile_later [OF this] show ?thesis by (simp add: example_File1_def)
qed

lemma example_MacroEvent_simps:
  "mac_Name (example_MacroEvent src) = ''FOO''" "mac_fid (example_MacroEvent src) = 1"
  "mac_source (example_MacroEvent src) = src"
  by (simp_all add: example_MacroEvent_def)

lemma example_fresh_var:
  "fst (toVar k (IndexFile_new ''/a.cc'' [] False)) = IndexVar0\<lparr>usr := k\<rparr>"
  by (simp add: toVar_def IndexFile_new_def)

theorem MacroDefined_entity_witness:
  "consumeFile example_env (mac_fid (example_MacroEvent ''FOO 10'')) example_Param
     = (Some (IndexFile_new ''/a.cc'' [] False), example_Param)
   \<and> map_option (\<lambda>v. kind (def v))
        (macro_entity example_env ''FOO'' 1
           (MacroDefined example_env (example_MacroEvent ''FOO 10'') example_Param)) = Some Macro
   \<and> map_option (\<lambda>v. parent_kind (def v))
        (macro_entity example_env ''FOO'' 1
           (MacroDefined example_env (example_MacroEvent ''FOO 10'') example_Param)) = Some SK_File
   \<and> map_option (\<lambda>v. detailed_name (def v))
        (macro_entity example_env ''FOO'' 1
           (MacroDefined example_env (example_MacroEvent ''FOO 10'') example_Param)) = Some ''FOO''
   \<and> map_option (\<lambda>v. hover (def v))
        (macro_entity example_env ''FOO'' 1
           (MacroDefined example_env (example_MacroEvent ''FOO 10'') example_Param))
       = Some ''#define FOO 10''
   \<and> consumeFile example_env (mac_fid ((example_MacroEvent ''FOO 10'')\<lparr>mac_fid := 2\<rparr>))
        example_Param = (None, example_Param)
   \<and> MacroDefined example_env ((example_MacroEvent ''FOO 10'')\<lparr>mac_fid := 2\<rparr>) example_Param
       = example_Param"
proof -
  let ?ev = "example_MacroEvent ''FOO 10''"
  let ?d = "IndexFile_new ''/a.cc'' [] False"
  let ?q = "MacroDefined example_env ?ev example_Param"
  note t = MacroDefined_entity [of example_env ?ev example_Param ?d example_Param]
  have c: "consumeFile example_env (mac_fid ?ev) example_Param = (Some ?d, example_Param)"
    by (simp add: example_MacroEvent_simps example_consume1)
  from mp [OF t [THEN conjunct1] c] obtain var where
    v: "macro_entity example_env ''FOO'' 1 ?q = Some var"
    and k: "kind (def var) = Macro" "parent_kind (def var) = SK_File"
    and n: "detailed_name (def var) = ''FOO''"
    and h: "hover (def var) = ''#define FOO 10''"
    by (auto simp: example_MacroEvent_simps example_fresh_var IndexVar0_def VarDef0_def
        example_env_simps)
  have "uid2file example_Param 2 = Some example_File2"
    by (simp add: example_Param_def)
  from consumeFile_later [OF this, of example_env]
  have z: "consumeFile example_env (mac_fid (?ev\<lparr>mac_fid := 2\<rparr>)) example_Param
       = (None, example_Param)"
    by (simp add: example_File2_def)
  have z': "MacroDefined example_env (?ev\<lparr>mac_fid := 2\<rparr>) example_Param = example_Param"
    by (rule mp [OF MacroDefined_entity [THEN conjunct2] z])
  from c v k n h z z' show ?thesis by simp
qed

text \<open>
  With a maximum of one line, the macro FOO is first defined on two lines: its hover text
  is "#define FOO", which is not just the name. It is then defined again on one line
  (\<^verbatim>\<open>#define FOO(x) 2\<close>): its hover text stays "#define FOO", which is not the source of
  this definition.
\<close>

theorem MacroDefined_hover_counterexample:
  "map_option (\<lambda>v. hover (def v))
     (macro_entity (example_env\<lparr>maxInitializerLines := 1\<rparr>) ''FOO'' 1
        (MacroDefined (example_env\<lparr>maxInitializerLines := 1\<rparr>)
           (example_MacroEvent example_long_source) example_Param))
     = Some ''#define FOO''
   \<and> map_option (\<lambda>v. hover (def v))
     (macro_entity (example_env\<lparr>maxInitializerLines := 1\<rparr>) ''FOO'' 1
        (MacroDefined (example_env\<lparr>maxInitializerLines := 1\<rparr>) (example_MacroEvent ''FOO(x) 2'')
           (MacroDefined (example_env\<lparr>maxInitializerLines := 1\<rparr>)
              (example_MacroEvent example_long_source) example_Param)))
     = Some ''#define FOO''"
proof -
  let ?env = "example_env\<lparr>maxInitializerLines := 1\<rparr>"
  let ?ev1 = "example_MacroEvent example_long_source"
  let ?ev2 = "example_MacroEvent ''FOO(x) 2''"
  let ?d = "IndexFile_new ''/a.cc'' [] False"
  let ?k = "hashUsr ?env (''@macro@'' @ ''FOO'')"
  let ?v1 = "MacroDefined_var ?env ?ev1 (IndexVar0\<lparr>usr := ?k\<rparr>)"
  have c1: "consumeFile ?env (mac_fid ?ev1) example_Param = (Some ?d, example_Param)"
    by (simp add: example_MacroEvent_simps example_consume1)
  have w: "\<not> within_max_lines ?env example_long_source"
    by (simp add: within_max_lines_def example_long_source_def)
  have h1: "hover (def ?v1) = ''#define FOO''" and n1: "detailed_name (def ?v1) = ''FOO''"
    using w by (simp_all add: MacroDefined_var_def Let_def IndexVar0_def VarDef0_def
        example_MacroEvent_simps)
  from macro_entity_MacroDefined [OF c1]
  have 1: "macro_entity ?env ''FOO'' 1 (MacroDefined ?env ?ev1 example_Param) = Some ?v1"
    by (simp add: example_MacroEvent_simps example_fresh_var)
  from consumeFile_after_MacroDefined [OF c1]
  have c2: "consumeFile ?env (mac_fid ?ev2) (MacroDefined ?env ?ev1 example_Param) =
      (Some (withVar ?k (MacroDefined_var ?env ?ev1) ?d), MacroDefined ?env ?ev1 example_Param)"
    by (simp add: example_MacroEvent_simps)
  from macro_entity_MacroDefined [OF c2]
  have 2: "macro_entity ?env ''FOO'' 1
      (MacroDefined ?env ?ev2 (MacroDefined ?env ?ev1 example_Param)) =
      Some (MacroDefined_var ?env ?ev2 ?v1)"
    by (simp add: example_MacroEvent_simps toVar_withVar example_fresh_var)
  have h2: "hover (def (MacroDefined_var ?env ?ev2 ?v1)) = ''#define FOO''"
    using MacroDefined_var_names [of ?v1 ?env ?ev2] n1 h1 by simp
  from 1 h1 2 h2 show ?thesis by simp
qed


subsection \<open>Declarations of structured bindings\<close>

lemma var_record_withVar:
  assumes "var_record u sp ds d"
    and "\<And>e. spell (def (g e)) = spell (def e) \<and> declarations (g e) = declarations e"
  shows "var_record u sp ds (withVar k g d)"
  using assms by (auto simp: var_record_def withVar_def toVar_def split: option.splits)

lemma var_record_withFunc: "var_record u sp ds d \<Longrightarrow> var_record u sp ds (withFunc k g d)"
  by (auto simp: var_record_def withFunc_def toFunc_def split: option.splits)

lemma var_record_withType: "var_record u sp ds d \<Longrightarrow> var_record u sp ds (withType k g d)"
  by (auto simp: var_record_def withType_def toType_def split: option.splits)

lemma var_record_getFileLID:
  "var_record u sp ds d \<Longrightarrow> var_record u sp ds (snd (getFileLID env fid d))"
  by (auto simp: var_record_def getFileLID_def split: option.splits)

lemma var_record_addMacroUse:
  assumes "var_record u sp ds d"
  shows "\<exists>d'. addMacroUse env k Var sf sr d = Some d' \<and> var_record u sp ds d'"
proof -
  obtain lid d1 where g: "getFileLID env sf d = (lid, d1)" by (cases "getFileLID env sf d")
  have "var_record u sp ds d1"
    using var_record_getFileLID [OF assms, of env sf] g by simp
  then show ?thesis
    using g by (auto simp: addMacroUse_def Let_def push_use_def intro!: var_record_withVar)
qed

lemma var_record_macro_use:
  assumes "var_record u sp ds d"
  shows "\<exists>d'. macro_use env occ k Var d = Some d' \<and> var_record u sp ds d'"
  using assms var_record_addMacroUse [OF assms]
  by (auto simp: macro_use_def)

lemma var_record_link_var_type:
  "var_record u sp ds d \<Longrightarrow> var_record u sp ds (fst (link_var_type env D k (d, p)))"
  by (auto simp: link_var_type_def Let_def split: TypeRef.splits option.splits prod.splits
      intro!: var_record_withVar var_record_withType)

lemma var_record_do_def:
  "var_record u
     (Some \<lparr> use_range = loc, use_role = rl, file_id = lid, extent = occ_extent occ \<rparr>)
     (declarations (fst (toVar u d)))
     (withVar u (\<lambda>e. do_def_decl cm occ True is_decl loc rl lid SemDC
                       (e\<lparr>def := (def e)\<lparr>kind := k\<rparr>\<rparr>)) d)"
  by (simp add: var_record_def withVar_lookup do_def_decl_def Let_def)

lemma binding_flags:
  assumes "getKindOf (occ_D occ) = Binding" and "occ_Roles occ AND 1 \<noteq> 0"
  shows "is_def_of occ" "is_decl_of occ" "narrowed_loc occ = occ_loc occ"
    "adjusted_D occ = occ_D occ" "getKind (occ_D occ) Unknown = (Var, Variable)"
  using assms
  by (simp_all add: is_def_of_def is_decl_of_def narrowed_loc_def adjusted_D_def getKind_def)

lemma occ_Var_binding:
  assumes b: "getKindOf (occ_D occ) = Binding" and r: "occ_Roles occ AND 1 \<noteq> 0"
  shows "\<exists>d' p'. occ_Var env occ (occ_D occ) u info ls_kind lid SemDC (d, p) = Some (d', p')
           \<and> var_record u
                (Some \<lparr> use_range = occ_loc occ, use_role = ucast (occ_Roles occ), file_id = lid,
                       extent = occ_extent occ \<rparr>)
                (declarations (fst (toVar u d))) d'"
proof -
  note fl = binding_flags [OF b r]
  let ?sp = "Some \<lparr> use_range = occ_loc occ, use_role = ucast (occ_Roles occ), file_id = lid,
                       extent = occ_extent occ \<rparr>"
  let ?ds = "declarations (fst (toVar u d))"
  let ?d1 = "withVar u (\<lambda>e. do_def_decl (index_comments env) occ True True (occ_loc occ)
                                 (ucast (occ_Roles occ)) lid SemDC
                                 (e\<lparr>def := (def e)\<lparr>kind := ls_kind\<rparr>\<rparr>)) d"
  have v1: "var_record u ?sp ?ds ?d1" by (rule var_record_do_def)
  from var_record_macro_use [OF v1] obtain d2 where
    m: "macro_use env occ u Var ?d1 = Some d2" and v2: "var_record u ?sp ?ds d2" by blast
  let ?d3 = "withVar u (\<lambda>e. if detailed_name (def e) = []
                        then e\<lparr>def := apply_VarNameResult
                                (occ_setVarName occ (short_name info) (qualified_name info)) (def e)\<rparr>
                        else e) d2"
  have v3: "var_record u ?sp ?ds ?d3"
    by (rule var_record_withVar [OF v2])
      (simp add: apply_VarNameResult_def apply_NameResult_def Let_def split: option.splits)
  let ?d4 = "withVar u (\<lambda>e. e\<lparr>def := (def e)\<lparr>parent_kind :=
                                  snd (getKind SemDC (parent_kind (def e)))\<rparr>\<rparr>) ?d3"
  have v4: "var_record u ?sp ?ds ?d4"
    by (rule var_record_withVar [OF v3]) simp
  have "\<exists>d5 p5. occ_Var env occ (occ_D occ) u info ls_kind lid SemDC (d, p)
            = Some (link_var_type env (occ_D occ) u (d5, p5)) \<and> var_record u ?sp ?ds d5"
    using m fl(1,2,3) v4
    by (auto simp: occ_Var_def Let_def split: prod.splits
        intro!: var_record_withFunc var_record_withType)
  then obtain d5 p5 where
    o: "occ_Var env occ (occ_D occ) u info ls_kind lid SemDC (d, p)
            = Some (link_var_type env (occ_D occ) u (d5, p5))"
    and v5: "var_record u ?sp ?ds d5" by blast
  obtain d' p' where l: "link_var_type env (occ_D occ) u (d5, p5) = (d', p')"
    by (cases "link_var_type env (occ_D occ) u (d5, p5)")
  from var_record_link_var_type [OF v5, of env "occ_D occ" u p5] l
  have "var_record u ?sp ?ds d'" by simp
  with o l show ?thesis by simp
qed

lemma relations_binding:
  "getKindOf D = Binding \<Longrightarrow> relations env occ D u info k lid s = Some s"
  by (cases s) (simp add: relations_def Let_def)

lemma occurrence_body_binding:
  assumes b: "getKindOf (occ_D occ) = Binding" and r: "occ_Roles occ AND 1 \<noteq> 0"
    and f: "uid2file p target = Some f" and d0: "db f = Some d0"
    and c: "getRedeclContext (occ_OrigD occ) = Some C" "skipAnonymousNamespaces C = Some SemDC"
      "skipAnonymousNamespaces (occ_ContainerDC occ) = Some LexDC"
  shows "\<exists>p' f' d' var.
           occurrence_body env occ lid target d p = Some p'
           \<and> uid2file p' target = Some f' \<and> db f' = Some d'
           \<and> usr2var d' (fst (fst (getUsr env (occ_D occ) p))) = Some var
           \<and> spell (def var) =
               Some \<lparr> use_range = occ_loc occ, use_role = ucast (occ_Roles occ), file_id = lid,
                      extent = occ_extent occ \<rparr>
           \<and> declarations var
               = declarations (fst (toVar (fst (fst (getUsr env (occ_D occ) p))) d))"
proof -
  note fl = binding_flags [OF b r]
  obtain u info p1 where g: "getUsr env (occ_D occ) p = ((u, info), p1)"
    by (cases "getUsr env (occ_D occ) p") auto
  let ?d1 = "d\<lparr>language := language d OR LanguageId_int (getDeclLanguage (occ_D occ))\<rparr>"
  have tv: "fst (toVar u ?d1) = fst (toVar u d)" by (simp add: toVar_def split: option.splits)
  from occ_Var_binding [OF b r, of env u info Variable lid SemDC ?d1 p1] obtain d' p' where
    o: "occ_Var env occ (occ_D occ) u info Variable lid SemDC (?d1, p1) = Some (d', p')"
    and v: "var_record u
                (Some \<lparr> use_range = occ_loc occ, use_role = ucast (occ_Roles occ), file_id = lid,
                       extent = occ_extent occ \<rparr>)
                (declarations (fst (toVar u d))) d'"
    unfolding tv by blast
  have body: "occurrence_body env occ lid target d p = Some (store_db target (d', p'))"
    using c g o fl relations_binding [OF b]
    by (simp add: occurrence_body_def Let_def)
  have "cache_ext p p1" using cache_ext_getUsr [of p env "occ_D occ"] g by simp
  moreover from occ_Var_frame [OF o] have "cache_ext p1 p'" by (simp add: frame_def)
  ultimately have "uid2file p' = uid2file p" by (simp add: cache_ext_def)
  with f d0 have "uid2file (store_db target (d', p')) target = Some (f\<lparr>db := Some d'\<rparr>)"
    by (simp add: store_db_lookup)
  with body v g show ?thesis
    by (auto simp: var_record_def)
qed


lemma handleDeclOccurence_plain:
  assumes "param_no_linkage p
           \<or> (namedDecl (attrs (occ_D occ)) \<noteq> None \<and> hasLinkage (attrs (occ_D occ)))"
    and "occ_fid occ \<noteq> 0"
    and "(multiVersion env = 0 \<and> p1 = p)
         \<or> (multiVersion env \<noteq> 0 \<and> useMultiVersion env (occ_fid occ) p = (False, p1))"
    and "consumeFile env (occ_fid occ) p1 = (Some d, p2)"
  shows "handleDeclOccurence env occ p = occurrence_body env occ (- 1) (occ_fid occ) d p2
         \<and> (\<exists>f. uid2file p2 (occ_fid occ) = Some f \<and> db f = Some d)"
  using assms consumeFile_Some [OF assms(4)]
  by (auto simp: handleDeclOccurence_def)

lemma handleDeclOccurence_multi:
  assumes "param_no_linkage p
           \<or> (namedDecl (attrs (occ_D occ)) \<noteq> None \<and> hasLinkage (attrs (occ_D occ)))"
    and "occ_fid occ \<noteq> 0"
    and "multiVersion env \<noteq> 0" and "useMultiVersion env (occ_fid occ) p = (True, p1)"
    and "consumeFile env (getMainFileID env) p1 = (Some d, p2)"
  shows "handleDeclOccurence env occ p =
           occurrence_body env occ
             (fst (if \<not> occ_isWrittenInMainFile occ then getFileLID env (occ_fid occ) d else (- 1, d)))
             (getMainFileID env)
             (snd (if \<not> occ_isWrittenInMainFile occ then getFileLID env (occ_fid occ) d else (- 1, d)))
             (seenFile env (occ_fid occ) p2)
         \<and> (\<exists>f. uid2file (seenFile env (occ_fid occ) p2) (getMainFileID env) = Some f
                \<and> db f = Some d)"
proof -
  from consumeFile_Some [OF assms(5)] obtain f where
    f: "uid2file p2 (getMainFileID env) = Some f" "db f = Some d" by blast
  have "uid2file (seenFile env (occ_fid occ) p2) (getMainFileID env) = Some f"
    using f(1) by (cases "getMainFileID env = occ_fid occ")
      (simp_all add: seenFile_seen seenFile_other)
  with f(2) assms show ?thesis
    by (auto simp: handleDeclOccurence_def split: prod.splits)
qed

lemma getUsr_key_state:
  "Decl2Info q = Decl2Info p \<Longrightarrow> fst (getUsr env D q) = fst (getUsr env D p)"
  by (simp add: getUsr_def Let_def split: option.splits)

lemma routing_fields:
  assumes "(if multiVersion env \<noteq> 0 then useMultiVersion env fid p else (False, p)) = (mv, p1)"
  shows "uid2file p1 = uid2file p" and "Decl2Info p1 = Decl2Info p"
  using assms by (auto simp: useMultiVersion_def split: if_splits option.splits)

lemma seenFile_le: "uid2file p \<subseteq>\<^sub>m uid2file (seenFile env fid p)"
  unfolding map_le_def
proof
  fix a assume "a \<in> dom (uid2file p)"
  then obtain f where f: "uid2file p a = Some f" by auto
  show "uid2file p a = uid2file (seenFile env fid p) a"
  proof (cases "a = fid")
    case True
    with f show ?thesis by (simp add: seenFile_seen)
  next
    case False
    then show ?thesis by (simp add: seenFile_other)
  qed
qed

lemma usr2var_getFileLID: "usr2var (snd (getFileLID env fid d)) = usr2var d"
  by (simp add: getFileLID_def split: option.splits)

lemma toVar_getFileLID: "fst (toVar u (snd (getFileLID env fid d))) = fst (toVar u d)"
  by (simp add: toVar_def usr2var_getFileLID split: option.splits)

lemma handleDeclOccurence_no_index:
  assumes k: "param_no_linkage p
           \<or> (namedDecl (attrs (occ_D occ)) \<noteq> None \<and> hasLinkage (attrs (occ_D occ)))"
    and n: "occ_fid occ \<noteq> 0"
    and m: "(if multiVersion env \<noteq> 0 then useMultiVersion env (occ_fid occ) p else (False, p))
            = (mv, p1)"
    and c: "consumeFile env (if mv then getMainFileID env else occ_fid occ) p1 = (None, p2)"
  shows "handleDeclOccurence env occ p = Some p2
         \<and> Option.bind (uid2file p2 (if mv then getMainFileID env else occ_fid occ)) db = None
         \<and> uid2file p \<subseteq>\<^sub>m uid2file p2"
proof -
  define t where "t = (if mv then getMainFileID env else occ_fid occ)"
  from c have c': "consumeFile env t p1 = (None, p2)" by (simp add: t_def)
  then have p2: "p2 = seenFile env t p1" by (rule consumeFile_None)
  from c' have "fst (consumeFile env t p1) = None" by simp
  then have "(case uid2file (seenFile env t p1) t of Some f \<Rightarrow> db f | None \<Rightarrow> None) = None"
    by (simp add: consumeFile_eq)
  then have "Option.bind (uid2file p2 t) db = None"
    unfolding p2 by (cases "uid2file (seenFile env t p1) t") simp_all
  then have 2: "Option.bind (uid2file p2 (if mv then getMainFileID env else occ_fid occ)) db = None"
    unfolding t_def .
  from seenFile_le [of p1 env t] routing_fields(1) [OF m]
  have 3: "uid2file p \<subseteq>\<^sub>m uid2file p2" unfolding p2 by simp
  from k have nk: "\<not> (\<not> param_no_linkage p
      \<and> \<not> (namedDecl (attrs (occ_D occ)) \<noteq> None \<and> hasLinkage (attrs (occ_D occ))))"
    by blast
  have 1: "handleDeclOccurence env occ p = Some p2"
    unfolding handleDeclOccurence_def if_not_P [OF nk] if_not_P [OF n] m
    using c by (cases mv) simp_all
  from 1 2 3 show ?thesis by (intro conjI)
qed

lemma handleDeclOccurence_binding:
  assumes b: "getKindOf (occ_D occ) = Binding" and r: "occ_Roles occ AND 1 \<noteq> 0"
    and k: "param_no_linkage p
           \<or> (namedDecl (attrs (occ_D occ)) \<noteq> None \<and> hasLinkage (attrs (occ_D occ)))"
    and n: "occ_fid occ \<noteq> 0"
    and m: "(if multiVersion env \<noteq> 0 then useMultiVersion env (occ_fid occ) p else (False, p))
            = (mv, p1)"
    and c: "consumeFile env (if mv then getMainFileID env else occ_fid occ) p1 = (Some d, p2)"
    and x: "getRedeclContext (occ_OrigD occ) = Some C" "skipAnonymousNamespaces C = Some SemDC"
      "skipAnonymousNamespaces (occ_ContainerDC occ) = Some LexDC"
  shows "\<exists>p' f' d' var.
           handleDeclOccurence env occ p = Some p'
           \<and> uid2file p' (if mv then getMainFileID env else occ_fid occ) = Some f'
           \<and> db f' = Some d'
           \<and> usr2var d' (fst (fst (getUsr env (occ_D occ) p))) = Some var
           \<and> spell (def var) =
               Some \<lparr> use_range = occ_loc occ, use_role = ucast (occ_Roles occ),
                      file_id = (if mv \<and> \<not> occ_isWrittenInMainFile occ
                                 then fst (getFileLID env (occ_fid occ) d) else - 1),
                      extent = occ_extent occ \<rparr>
           \<and> declarations var
               = declarations (fst (toVar (fst (fst (getUsr env (occ_D occ) p))) d))"
proof (cases mv)
  case False
  from m False have m': "(multiVersion env = 0 \<and> p1 = p)
         \<or> (multiVersion env \<noteq> 0 \<and> useMultiVersion env (occ_fid occ) p = (False, p1))"
    by (auto split: if_splits)
  from c False have c': "consumeFile env (occ_fid occ) p1 = (Some d, p2)" by simp
  from handleDeclOccurence_plain [OF k n m' c'] obtain f where
    h: "handleDeclOccurence env occ p = occurrence_body env occ (- 1) (occ_fid occ) d p2"
    and f: "uid2file p2 (occ_fid occ) = Some f" "db f = Some d" by blast
  from consumeFile_Some [OF c'] have "p2 = seenFile env (occ_fid occ) p1" by simp
  with routing_fields(2) [OF m] have "Decl2Info p2 = Decl2Info p" by (simp add: seenFile_fields)
  from getUsr_key_state [OF this] have u: "fst (getUsr env (occ_D occ) p2) = fst (getUsr env (occ_D occ) p)" .
  from occurrence_body_binding [OF b r f x, of env "- 1" d] show ?thesis
    unfolding h u using False by simp
next
  case True
  from m True have m': "multiVersion env \<noteq> 0" "useMultiVersion env (occ_fid occ) p = (True, p1)"
    by (auto split: if_splits)
  from c True have c': "consumeFile env (getMainFileID env) p1 = (Some d, p2)" by simp
  let ?l = "if \<not> occ_isWrittenInMainFile occ then getFileLID env (occ_fid occ) d else (- 1, d)"
  let ?q = "seenFile env (occ_fid occ) p2"
  from handleDeclOccurence_multi [OF k n m' c'] obtain f where
    h: "handleDeclOccurence env occ p
          = occurrence_body env occ (fst ?l) (getMainFileID env) (snd ?l) ?q"
    and f: "uid2file ?q (getMainFileID env) = Some f" "db f = Some d" by blast
  from consumeFile_Some [OF c'] have "p2 = seenFile env (getMainFileID env) p1" by simp
  with routing_fields(2) [OF m] have "Decl2Info ?q = Decl2Info p" by (simp add: seenFile_fields)
  from getUsr_key_state [OF this] have u: "fst (getUsr env (occ_D occ) ?q) = fst (getUsr env (occ_D occ) p)" .
  have l: "fst ?l = (if \<not> occ_isWrittenInMainFile occ then fst (getFileLID env (occ_fid occ) d) else - 1)"
    by simp
  have t: "fst (toVar k (snd ?l)) = fst (toVar k d)" for k
    by (simp add: toVar_getFileLID)
  from occurrence_body_binding [OF b r f x, of env "fst ?l" "snd ?l"] show ?thesis
    unfolding h u t l using True by simp
qed

lemma example_Occurrence_simps:
  "occ_D example_Occurrence = example_Binding" "occ_OrigD example_Occurrence = example_Binding"
  "occ_ContainerDC example_Occurrence = simpleDecl Function 8 ''c:@F@f#'' (Some (''f'', ''f''))"
  "occ_fid example_Occurrence = 1"
  "occ_Roles example_Occurrence = 1" "occ_loc example_Occurrence = example_Range 4 8 9"
  "occ_extent example_Occurrence = example_Range 4 8 9"
  "occ_isWrittenInMainFile example_Occurrence = True"
  by (simp_all add: example_Occurrence_def)

lemma example_Binding_simps:
  "getKindOf example_Binding = Binding"
  "namedDecl (attrs example_Binding) = Some (''x'', ''x'')"
  "hasLinkage (attrs example_Binding) = True"
  "getCanonicalDecl (attrs example_Binding) = 9"
  "generateUSRForDecl (attrs example_Binding) = ''c:@F@f#@x''"
  "getRedeclContext example_Binding = Some (simpleDecl Function 8 ''c:@F@f#'' (Some (''f'', ''f'')))"
  "getKindOf example_local_Binding = Binding"
  "hasLinkage (attrs example_local_Binding) = False"
  "skipAnonymousNamespaces (simpleDecl Function 8 ''c:@F@f#'' (Some (''f'', ''f'')))
     = Some (simpleDecl Function 8 ''c:@F@f#'' (Some (''f'', ''f'')))"
  by (simp_all add: example_Binding_def example_local_Binding_def simpleDecl_def simpleAttrs_def)

lemma example_Param_simps:
  "param_no_linkage example_Param = False"
  "uid2file example_Param 1 = Some example_File1"
  "uid2file example_Param 2 = Some example_File2"
  "uid2multi example_Param = Map.empty"
  "Decl2Info example_Param = Map.empty"
  "db example_File1 = Some (IndexFile_new ''/a.cc'' [] False)"
  "db example_File2 = None"
  by (simp_all add: example_Param_def example_File1_def example_File2_def)

lemma example_env_multi_simps:
  "multiVersion example_env_multi = 1"
  "getMainFileID example_env_multi = 1"
  "getFileEntryForID example_env_multi 2 = Some \<lparr> pathFromFileEntry = ''/a.h'', getModificationTime = 7,
                                absolutePath = Some ''/a.h'' \<rparr>"
  "matches example_env_multi ''/a.h'' = True"
  "hashUsr example_env_multi = (\<lambda>s. of_nat (length s))"
  by (simp_all add: example_env_multi_def example_env_def)

lemma example_multi_routing:
  "useMultiVersion example_env_multi 2 example_Param = (True, example_Param\<lparr>uid2multi := [2 \<mapsto> True]\<rparr>)"
  "useMultiVersion (example_env_multi\<lparr>getMainFileID := 2\<rparr>) 2 example_Param
     = (True, example_Param\<lparr>uid2multi := [2 \<mapsto> True]\<rparr>)"
  by (simp_all add: useMultiVersion_def example_Param_simps example_env_multi_simps)

lemma example_multi_consume:
  "consumeFile env 1 (example_Param\<lparr>uid2multi := [2 \<mapsto> True]\<rparr>)
     = (Some (IndexFile_new ''/a.cc'' [] False), example_Param\<lparr>uid2multi := [2 \<mapsto> True]\<rparr>)"
  "consumeFile env 2 (example_Param\<lparr>uid2multi := [2 \<mapsto> True]\<rparr>)
     = (None, example_Param\<lparr>uid2multi := [2 \<mapsto> True]\<rparr>)"
  "consumeFile env 2 example_Param = (None, example_Param)"
proof -
  have 1: "uid2file (example_Param\<lparr>uid2multi := [2 \<mapsto> True]\<rparr>) 1 = Some example_File1"
    and 2: "uid2file (example_Param\<lparr>uid2multi := [2 \<mapsto> True]\<rparr>) 2 = Some example_File2"
    by (simp_all add: example_Param_simps)
  from consumeFile_later [OF 1] show "consumeFile env 1 (example_Param\<lparr>uid2multi := [2 \<mapsto> True]\<rparr>)
     = (Some (IndexFile_new ''/a.cc'' [] False), example_Param\<lparr>uid2multi := [2 \<mapsto> True]\<rparr>)"
    by (simp add: example_Param_simps)
  from consumeFile_later [OF 2] show "consumeFile env 2 (example_Param\<lparr>uid2multi := [2 \<mapsto> True]\<rparr>)
     = (None, example_Param\<lparr>uid2multi := [2 \<mapsto> True]\<rparr>)"
    by (simp add: example_Param_simps)
  from consumeFile_later [OF example_Param_simps(3)] show "consumeFile env 2 example_Param = (None, example_Param)"
    by (simp add: example_Param_simps)
qed

lemma example_Binding_key:
  "fst (fst (getUsr example_env example_Binding example_Param)) = 9"
  "fst (fst (getUsr example_env_multi example_Binding example_Param)) = 9"
  by (simp_all add: getUsr_def example_Param_simps example_Binding_simps example_env_simps
      example_env_multi_simps Let_def)

lemma example_multi_lid:
  "fst (getFileLID example_env_multi 2 (IndexFile_new ''/a.cc'' [] False)) = 0"
  by (simp add: getFileLID_def IndexFile_new_def example_env_multi_simps)

text \<open>
  C9. An occurrence of a structured binding that carries the Declaration role is recorded
  as the definition record of its variable entity when it reaches the recording step, and
  is dropped otherwise.
  \<^item> In a pass that is not a \<^verbatim>\<open>no_linkage\<close> pass, an event whose node is not a named
    declaration with linkage is dropped: the state is as it was.
  \<^item> An event with an invalid file handle is dropped: the state is as it was.
  \<^item> An event whose receiving file (the file of the event, or the main file when the file
    of the event is a multi-version file) has no index is dropped: the handler returns the
    state after staging, in which the receiving file has no index and every file staged
    before has the entry it had.
  \<^item> Every other event of a structured binding with the Declaration role (its declaration
    contexts not null) is recorded: the handler returns, and in the index of the receiving
    file the variable entity of the node's key has, as its definition record, the range of
    the event, the role set of the event as it is (the Declaration bit stays, no other bit
    is added), the local file index and the extent; its declaration list is what it was.
\<close>

theorem binding_declaration_recorded:
  "(\<not> param_no_linkage p
      \<and> \<not> (namedDecl (attrs (occ_D occ)) \<noteq> None \<and> hasLinkage (attrs (occ_D occ)))
    \<longrightarrow> handleDeclOccurence env occ p = Some p)
   \<and> (occ_fid occ = 0 \<longrightarrow> handleDeclOccurence env occ p = Some p)
   \<and> ((param_no_linkage p
         \<or> (namedDecl (attrs (occ_D occ)) \<noteq> None \<and> hasLinkage (attrs (occ_D occ))))
       \<and> occ_fid occ \<noteq> 0
       \<and> (if multiVersion env \<noteq> 0 then useMultiVersion env (occ_fid occ) p else (False, p))
           = (mv, p1)
       \<and> consumeFile env (if mv then getMainFileID env else occ_fid occ) p1 = (None, p2)
      \<longrightarrow> handleDeclOccurence env occ p = Some p2
          \<and> Option.bind (uid2file p2 (if mv then getMainFileID env else occ_fid occ)) db = None
          \<and> uid2file p \<subseteq>\<^sub>m uid2file p2)
   \<and> (getKindOf (occ_D occ) = Binding \<and> occ_Roles occ AND 1 \<noteq> 0
       \<and> (param_no_linkage p
           \<or> (namedDecl (attrs (occ_D occ)) \<noteq> None \<and> hasLinkage (attrs (occ_D occ))))
       \<and> occ_fid occ \<noteq> 0
       \<and> (if multiVersion env \<noteq> 0 then useMultiVersion env (occ_fid occ) p else (False, p))
           = (mv, p1)
       \<and> consumeFile env (if mv then getMainFileID env else occ_fid occ) p1 = (Some d, p2)
       \<and> getRedeclContext (occ_OrigD occ) = Some C \<and> skipAnonymousNamespaces C = Some SemDC
       \<and> skipAnonymousNamespaces (occ_ContainerDC occ) = Some LexDC
      \<longrightarrow> (\<exists>p' f' d' var.
           handleDeclOccurence env occ p = Some p'
           \<and> uid2file p' (if mv then getMainFileID env else occ_fid occ) = Some f'
           \<and> db f' = Some d'
           \<and> usr2var d' (fst (fst (getUsr env (occ_D occ) p))) = Some var
           \<and> spell (def var) =
               Some \<lparr> use_range = occ_loc occ, use_role = ucast (occ_Roles occ),
                      file_id = (if mv \<and> \<not> occ_isWrittenInMainFile occ
                                 then fst (getFileLID env (occ_fid occ) d) else - 1),
                      extent = occ_extent occ \<rparr>
           \<and> declarations var
               = declarations (fst (toVar (fst (fst (getUsr env (occ_D occ) p))) d))))"
proof (intro conjI impI)
  assume "\<not> param_no_linkage p
      \<and> \<not> (namedDecl (attrs (occ_D occ)) \<noteq> None \<and> hasLinkage (attrs (occ_D occ)))"
  then show "handleDeclOccurence env occ p = Some p"
    by (simp add: handleDeclOccurence_def)
next
  assume "occ_fid occ = 0"
  then show "handleDeclOccurence env occ p = Some p"
    by (simp add: handleDeclOccurence_def)
next
  assume a: "(param_no_linkage p
         \<or> (namedDecl (attrs (occ_D occ)) \<noteq> None \<and> hasLinkage (attrs (occ_D occ))))
       \<and> occ_fid occ \<noteq> 0
       \<and> (if multiVersion env \<noteq> 0 then useMultiVersion env (occ_fid occ) p else (False, p))
           = (mv, p1)
       \<and> consumeFile env (if mv then getMainFileID env else occ_fid occ) p1 = (None, p2)"
  note h = handleDeclOccurence_no_index [OF a [THEN conjunct1] a [THEN conjunct2, THEN conjunct1]
      a [THEN conjunct2, THEN conjunct2, THEN conjunct1]
      a [THEN conjunct2, THEN conjunct2, THEN conjunct2]]
  from h show "handleDeclOccurence env occ p = Some p2" by (rule conjunct1)
  from h show "Option.bind (uid2file p2 (if mv then getMainFileID env else occ_fid occ)) db = None"
    by (rule conjunct2 [THEN conjunct1])
  from h show "uid2file p \<subseteq>\<^sub>m uid2file p2" by (rule conjunct2 [THEN conjunct2])
next
  assume a: "getKindOf (occ_D occ) = Binding \<and> occ_Roles occ AND 1 \<noteq> 0
       \<and> (param_no_linkage p
           \<or> (namedDecl (attrs (occ_D occ)) \<noteq> None \<and> hasLinkage (attrs (occ_D occ))))
       \<and> occ_fid occ \<noteq> 0
       \<and> (if multiVersion env \<noteq> 0 then useMultiVersion env (occ_fid occ) p else (False, p))
           = (mv, p1)
       \<and> consumeFile env (if mv then getMainFileID env else occ_fid occ) p1 = (Some d, p2)
       \<and> getRedeclContext (occ_OrigD occ) = Some C \<and> skipAnonymousNamespaces C = Some SemDC
       \<and> skipAnonymousNamespaces (occ_ContainerDC occ) = Some LexDC"
  then have b: "getKindOf (occ_D occ) = Binding" and r: "occ_Roles occ AND 1 \<noteq> 0"
    and k: "param_no_linkage p
           \<or> (namedDecl (attrs (occ_D occ)) \<noteq> None \<and> hasLinkage (attrs (occ_D occ)))"
    and n: "occ_fid occ \<noteq> 0"
    and m: "(if multiVersion env \<noteq> 0 then useMultiVersion env (occ_fid occ) p else (False, p))
            = (mv, p1)"
    and c: "consumeFile env (if mv then getMainFileID env else occ_fid occ) p1 = (Some d, p2)"
    and x: "getRedeclContext (occ_OrigD occ) = Some C" "skipAnonymousNamespaces C = Some SemDC"
      "skipAnonymousNamespaces (occ_ContainerDC occ) = Some LexDC"
    by simp_all
  show "\<exists>p' f' d' var.
           handleDeclOccurence env occ p = Some p'
           \<and> uid2file p' (if mv then getMainFileID env else occ_fid occ) = Some f'
           \<and> db f' = Some d'
           \<and> usr2var d' (fst (fst (getUsr env (occ_D occ) p))) = Some var
           \<and> spell (def var) =
               Some \<lparr> use_range = occ_loc occ, use_role = ucast (occ_Roles occ),
                      file_id = (if mv \<and> \<not> occ_isWrittenInMainFile occ
                                 then fst (getFileLID env (occ_fid occ) d) else - 1),
                      extent = occ_extent occ \<rparr>
           \<and> declarations var
               = declarations (fst (toVar (fst (fst (getUsr env (occ_D occ) p))) d))"
    by (rule handleDeclOccurence_binding [OF b r k n m c x])
qed

theorem binding_declaration_dropped_counterexample:
  "getKindOf (occ_D (example_Occurrence\<lparr>occ_D := example_local_Binding,
                                         occ_OrigD := example_local_Binding\<rparr>)) = Binding
   \<and> occ_Roles (example_Occurrence\<lparr>occ_D := example_local_Binding,
                                   occ_OrigD := example_local_Binding\<rparr>) AND 1 \<noteq> 0
   \<and> handleDeclOccurence example_env
        (example_Occurrence\<lparr>occ_D := example_local_Binding, occ_OrigD := example_local_Binding\<rparr>)
        example_Param = Some example_Param
   \<and> getKindOf (occ_D (example_Occurrence\<lparr>occ_fid := 2\<rparr>)) = Binding
   \<and> occ_Roles (example_Occurrence\<lparr>occ_fid := 2\<rparr>) AND 1 \<noteq> 0
   \<and> handleDeclOccurence example_env (example_Occurrence\<lparr>occ_fid := 2\<rparr>) example_Param
       = Some example_Param
   \<and> Option.bind (uid2file example_Param 1) db = Some (IndexFile_new ''/a.cc'' [] False)
   \<and> usr2var (IndexFile_new ''/a.cc'' [] False) = Map.empty
   \<and> Option.bind (uid2file example_Param 2) db = None"
proof -
  have 1: "handleDeclOccurence example_env
        (example_Occurrence\<lparr>occ_D := example_local_Binding, occ_OrigD := example_local_Binding\<rparr>)
        example_Param = Some example_Param"
    by (simp add: handleDeclOccurence_def example_Param_simps example_Binding_simps)
  have 2: "handleDeclOccurence example_env (example_Occurrence\<lparr>occ_fid := 2\<rparr>) example_Param
       = Some example_Param"
    by (simp add: handleDeclOccurence_def example_Param_simps example_Binding_simps
        example_Occurrence_simps example_env_simps example_multi_consume)
  have 3: "usr2var (IndexFile_new ''/a.cc'' [] False) = Map.empty"
    by (simp add: IndexFile_new_def)
  from 1 2 3 show ?thesis
    by (simp add: example_Param_simps example_Binding_simps example_Occurrence_simps)
qed

theorem binding_declaration_recorded_witness:
  "handleDeclOccurence example_env
     (example_Occurrence\<lparr>occ_D := example_local_Binding, occ_OrigD := example_local_Binding\<rparr>)
     example_Param = Some example_Param
   \<and> handleDeclOccurence example_env (example_Occurrence\<lparr>occ_fid := 0\<rparr>) example_Param
       = Some example_Param
   \<and> handleDeclOccurence example_env (example_Occurrence\<lparr>occ_fid := 2\<rparr>) example_Param
       = Some example_Param
   \<and> handleDeclOccurence (example_env_multi\<lparr>getMainFileID := 2\<rparr>)
        (example_Occurrence\<lparr>occ_fid := 2\<rparr>) example_Param
       = Some (example_Param\<lparr>uid2multi := [2 \<mapsto> True]\<rparr>)
   \<and> (\<exists>p' f' d' var.
         handleDeclOccurence example_env example_Occurrence example_Param = Some p'
         \<and> uid2file p' 1 = Some f' \<and> db f' = Some d'
         \<and> usr2var d' 9 = Some var
         \<and> spell (def var) =
             Some \<lparr> use_range = example_Range 4 8 9, use_role = 1, file_id = - 1,
                    extent = example_Range 4 8 9 \<rparr>
         \<and> declarations var = [])
   \<and> (\<exists>p' f' d' var.
         handleDeclOccurence example_env_multi
           (example_Occurrence\<lparr>occ_fid := 2, occ_isWrittenInMainFile := False\<rparr>) example_Param
           = Some p'
         \<and> uid2file p' 1 = Some f' \<and> db f' = Some d'
         \<and> usr2var d' 9 = Some var
         \<and> spell (def var) =
             Some \<lparr> use_range = example_Range 4 8 9, use_role = 1, file_id = 0,
                    extent = example_Range 4 8 9 \<rparr>
         \<and> declarations var = [])"
proof -
  let ?d = "IndexFile_new ''/a.cc'' [] False"
  let ?F = "simpleDecl Function 8 ''c:@F@f#'' (Some (''f'', ''f''))"
  let ?L = "example_Occurrence\<lparr>occ_D := example_local_Binding, occ_OrigD := example_local_Binding\<rparr>"
  let ?M = "example_Occurrence\<lparr>occ_fid := 2, occ_isWrittenInMainFile := False\<rparr>"
  let ?pm = "example_Param\<lparr>uid2multi := [2 \<mapsto> True]\<rparr>"
  note s = example_Param_simps example_Binding_simps example_Occurrence_simps example_env_simps
    example_env_multi_simps
  have tv: "declarations (fst (toVar 9 ?d)) = []"
    by (simp add: example_fresh_var IndexVar0_def)
  have A: "handleDeclOccurence example_env ?L example_Param = Some example_Param"
    by (rule mp [OF binding_declaration_recorded [where occ = ?L and p = example_Param
            and env = example_env, THEN conjunct1]])
      (simp add: s)
  have B: "handleDeclOccurence example_env (example_Occurrence\<lparr>occ_fid := 0\<rparr>) example_Param
       = Some example_Param"
    by (rule mp [OF binding_declaration_recorded [where occ = "example_Occurrence\<lparr>occ_fid := 0\<rparr>"
            and p = example_Param and env = example_env, THEN conjunct2, THEN conjunct1]])
      simp
  have C: "handleDeclOccurence example_env (example_Occurrence\<lparr>occ_fid := 2\<rparr>) example_Param
       = Some example_Param"
    by (rule mp [OF binding_declaration_recorded [where occ = "example_Occurrence\<lparr>occ_fid := 2\<rparr>"
            and p = example_Param and env = example_env and mv = False and ?p1.0 = example_Param
            and ?p2.0 = example_Param,
            THEN conjunct2, THEN conjunct2, THEN conjunct1], THEN conjunct1])
      (simp add: s example_multi_consume)
  have C': "handleDeclOccurence (example_env_multi\<lparr>getMainFileID := 2\<rparr>)
        (example_Occurrence\<lparr>occ_fid := 2\<rparr>) example_Param = Some ?pm"
    by (rule mp [OF binding_declaration_recorded [where occ = "example_Occurrence\<lparr>occ_fid := 2\<rparr>"
            and p = example_Param and env = "example_env_multi\<lparr>getMainFileID := 2\<rparr>"
            and mv = True and ?p1.0 = ?pm and ?p2.0 = ?pm,
            THEN conjunct2, THEN conjunct2, THEN conjunct1], THEN conjunct1])
      (simp add: s example_multi_consume example_multi_routing)
  have "\<exists>p' f' d' var.
           handleDeclOccurence example_env example_Occurrence example_Param = Some p'
           \<and> uid2file p' (if False then getMainFileID example_env else occ_fid example_Occurrence)
               = Some f'
           \<and> db f' = Some d'
           \<and> usr2var d' (fst (fst (getUsr example_env (occ_D example_Occurrence) example_Param)))
               = Some var
           \<and> spell (def var) =
               Some \<lparr> use_range = occ_loc example_Occurrence,
                      use_role = ucast (occ_Roles example_Occurrence),
                      file_id = (if False \<and> \<not> occ_isWrittenInMainFile example_Occurrence
                                 then fst (getFileLID example_env (occ_fid example_Occurrence) ?d)
                                 else - 1),
                      extent = occ_extent example_Occurrence \<rparr>
           \<and> declarations var
               = declarations (fst (toVar (fst (fst (getUsr example_env (occ_D example_Occurrence)
                                  example_Param))) ?d))"
    by (rule mp [OF binding_declaration_recorded [where occ = example_Occurrence
            and p = example_Param and env = example_env and mv = False and ?p1.0 = example_Param
            and ?p2.0 = example_Param and d = ?d and C = ?F and SemDC = ?F and LexDC = ?F,
            THEN conjunct2, THEN conjunct2, THEN conjunct2]])
      (simp add: s example_consume1)
  then have D: "\<exists>p' f' d' var.
         handleDeclOccurence example_env example_Occurrence example_Param = Some p'
         \<and> uid2file p' 1 = Some f' \<and> db f' = Some d'
         \<and> usr2var d' 9 = Some var
         \<and> spell (def var) =
             Some \<lparr> use_range = example_Range 4 8 9, use_role = 1, file_id = - 1,
                    extent = example_Range 4 8 9 \<rparr>
         \<and> declarations var = []"
    by (simp add: example_Occurrence_simps example_Binding_key tv)
  have "\<exists>p' f' d' var.
           handleDeclOccurence example_env_multi ?M example_Param = Some p'
           \<and> uid2file p' (if True then getMainFileID example_env_multi else occ_fid ?M) = Some f'
           \<and> db f' = Some d'
           \<and> usr2var d' (fst (fst (getUsr example_env_multi (occ_D ?M) example_Param))) = Some var
           \<and> spell (def var) =
               Some \<lparr> use_range = occ_loc ?M, use_role = ucast (occ_Roles ?M),
                      file_id = (if True \<and> \<not> occ_isWrittenInMainFile ?M
                                 then fst (getFileLID example_env_multi (occ_fid ?M) ?d)
                                 else - 1),
                      extent = occ_extent ?M \<rparr>
           \<and> declarations var
               = declarations (fst (toVar (fst (fst (getUsr example_env_multi (occ_D ?M)
                                  example_Param))) ?d))"
    by (rule mp [OF binding_declaration_recorded [where occ = ?M
            and p = example_Param and env = example_env_multi and mv = True and ?p1.0 = ?pm
            and ?p2.0 = ?pm and d = ?d and C = ?F and SemDC = ?F and LexDC = ?F,
            THEN conjunct2, THEN conjunct2, THEN conjunct2]])
      (simp add: s example_multi_consume example_multi_routing)
  then have E: "\<exists>p' f' d' var.
         handleDeclOccurence example_env_multi ?M example_Param = Some p'
         \<and> uid2file p' 1 = Some f' \<and> db f' = Some d'
         \<and> usr2var d' 9 = Some var
         \<and> spell (def var) =
             Some \<lparr> use_range = example_Range 4 8 9, use_role = 1, file_id = 0,
                    extent = example_Range 4 8 9 \<rparr>
         \<and> declarations var = []"
    by (simp add: example_Occurrence_simps example_Binding_key tv example_multi_lid
        example_env_multi_simps)
  from A B C C' D E show ?thesis by (intro conjI)
qed

subsection \<open>Decimal text\<close>

lemma of_char_decimal_digit: "(of_char (decimal_digit n) :: nat) = 48 + n mod 10"
  by (simp add: decimal_digit_def)

lemma isdigit_decimal_digit: "isdigit (decimal_digit n)"
  by (simp add: isdigit_def of_char_decimal_digit)

lemma isdigit_chars:
  "isdigit c \<Longrightarrow> \<not> isspace c \<and> c \<noteq> CHR ''-'' \<and> c \<noteq> CHR ''+'' \<and> c \<noteq> CHR ''|''"
  by (auto simp: isdigit_def isspace_def)

lemma to_string_nat_digits: "c \<in> set (to_string_nat n) \<Longrightarrow> isdigit c"
proof (induction n rule: to_string_nat.induct)
  case (1 n)
  then show ?case
    by (subst (asm) (2) to_string_nat.simps) (auto simp: isdigit_decimal_digit split: if_splits)
qed

lemma to_string_nat_not_Nil: "to_string_nat n \<noteq> []"
  by (subst to_string_nat.simps) simp

lemma digits_value_snoc:
  "digits_value (ds @ [c]) = 10 * digits_value ds + (of_char c - 48)"
  by (simp add: digits_value_def)

lemma digits_value_to_string_nat: "digits_value (to_string_nat n) = n"
proof (induction n rule: to_string_nat.induct)
  case (1 n)
  show ?case
  proof (cases "n < 10")
    case True
    then show ?thesis
      by (subst to_string_nat.simps) (simp add: digits_value_def of_char_decimal_digit)
  next
    case False
    with 1 have "digits_value (to_string_nat (n div 10)) = n div 10" by simp
    with False show ?thesis
      by (subst to_string_nat.simps) (simp add: digits_value_snoc of_char_decimal_digit)
  qed
qed

lemma length_to_string_nat: "n < 10 ^ k \<Longrightarrow> 0 < k \<Longrightarrow> length (to_string_nat n) \<le> k"
proof (induction n arbitrary: k rule: to_string_nat.induct)
  case (1 n)
  show ?case
  proof (cases "n < 10")
    case True
    with 1(3) show ?thesis by (subst to_string_nat.simps) simp
  next
    case False
    from 1(3) obtain j where k: "k = Suc j" by (cases k) auto
    from False 1(2) k have j: "0 < j" by (cases j) auto
    from 1(2) k have "n div 10 < 10 ^ j" by (simp add: less_mult_imp_div_less mult.commute)
    from 1(1) [OF False this j] False k show ?thesis
      by (subst to_string_nat.simps) simp
  qed
qed

lemma takeWhile_digits:
  assumes "\<forall>c \<in> set ds. isdigit c" and "no_digit_next rest"
  shows "takeWhile isdigit (ds @ rest) = ds" and "dropWhile isdigit (ds @ rest) = rest"
proof -
  have t: "takeWhile isdigit rest = []" and d: "dropWhile isdigit rest = rest"
    using assms(2) by (cases rest; simp add: no_digit_next_def)+
  from assms(1) show "takeWhile isdigit (ds @ rest) = ds"
    by (simp add: takeWhile_append2 t)
  from assms(1) show "dropWhile isdigit (ds @ rest) = rest"
    by (simp add: dropWhile_append2 d)
qed

lemma digits_start:
  assumes "ds \<noteq> []" and "\<forall>c \<in> set ds. isdigit c"
  shows "dropWhile isspace (ds @ rest) = ds @ rest" and "read_sign (ds @ rest) = (False, ds @ rest)"
proof -
  from assms obtain c cs where ds: "ds = c # cs" and c: "isdigit c" by (cases ds) auto
  from isdigit_chars [OF c] show "dropWhile isspace (ds @ rest) = ds @ rest"
    by (simp add: ds)
  from isdigit_chars [OF c] show "read_sign (ds @ rest) = (False, ds @ rest)"
    by (simp add: ds read_sign_def)
qed

lemma strtoull_to_string_nat:
  assumes "n < 2 ^ 64" and "no_digit_next rest"
  shows "strtoull (to_string_nat n @ rest) = (n, rest)"
proof -
  have dg: "\<forall>c \<in> set (to_string_nat n). isdigit c" by (simp add: to_string_nat_digits)
  note tw = takeWhile_digits [OF dg assms(2)]
  note st = digits_start [OF to_string_nat_not_Nil dg, of rest]
  show ?thesis
    using assms(1)
    by (simp add: strtoull_def st tw to_string_nat_not_Nil digits_value_to_string_nat)
qed

lemma strtol_digits:
  assumes "no_digit_next rest"
  shows "n \<le> 2 ^ 63 \<Longrightarrow> strtol (CHR ''-'' # to_string_nat n @ rest) = (- int n, rest)"
    and "n < 2 ^ 63 \<Longrightarrow> strtol (to_string_nat n @ rest) = (int n, rest)"
proof -
  have dg: "\<forall>c \<in> set (to_string_nat n). isdigit c" by (simp add: to_string_nat_digits)
  note tw = takeWhile_digits [OF dg assms]
  note st = digits_start [OF to_string_nat_not_Nil dg, of rest]
  show "n \<le> 2 ^ 63 \<Longrightarrow> strtol (CHR ''-'' # to_string_nat n @ rest) = (- int n, rest)"
    by (simp add: strtol_def isspace_def read_sign_def tw to_string_nat_not_Nil
        digits_value_to_string_nat)
  show "n < 2 ^ 63 \<Longrightarrow> strtol (to_string_nat n @ rest) = (int n, rest)"
    by (simp add: strtol_def st tw to_string_nat_not_Nil digits_value_to_string_nat)
qed

lemma strtol_to_string:
  assumes "- (2 ^ 63) \<le> i" and "i < 2 ^ 63" and "no_digit_next rest"
  shows "strtol (to_string i @ rest) = (i, rest)"
proof (cases "i < 0")
  case True
  with assms(1) have "nat (- i) \<le> 2 ^ 63" by (simp add: nat_le_iff)
  from strtol_digits(1) [OF assms(3) this] True show ?thesis
    by (simp add: to_string_def)
next
  case False
  with assms(2) have "nat i < 2 ^ 63" by (simp add: nat_less_iff)
  from strtol_digits(2) [OF assms(3) this] False show ?thesis
    by (simp add: to_string_def)
qed

lemma bar_not_in_to_string_nat: "CHR ''|'' \<notin> set (to_string_nat n)"
  using to_string_nat_digits isdigit_chars by blast

lemma bar_not_in_to_string: "CHR ''|'' \<notin> set (to_string i)"
  by (simp add: to_string_def bar_not_in_to_string_nat)

lemma length_to_string:
  "\<bar>i\<bar> < 10 ^ k \<Longrightarrow> 0 < k \<Longrightarrow> length (to_string i) \<le> Suc k"
  using length_to_string_nat [of "nat \<bar>i\<bar>" k]
  by (auto simp: to_string_def nat_less_iff)

lemma length_to_string_nonneg:
  "0 \<le> i \<Longrightarrow> i < 10 ^ k \<Longrightarrow> 0 < k \<Longrightarrow> length (to_string i) \<le> k"
  using length_to_string_nat [of "nat i" k]
  by (auto simp: to_string_def nat_less_iff)

lemma no_digit_next_simps [simp]: "no_digit_next []" "no_digit_next (CHR ''|'' # r)"
  by (simp_all add: no_digit_next_def isdigit_def)

lemma strchr_bar:
  assumes "CHR ''|'' \<notin> set s"
  shows "Option.bind (strchr (s @ CHR ''|'' # rest) (CHR ''|'')) plus1 = Some rest"
proof -
  from assms have "dropWhile (\<lambda>x. x \<noteq> CHR ''|'') s = []"
    by (induction s) auto
  then have "dropWhile (\<lambda>x. x \<noteq> CHR ''|'') (s @ CHR ''|'' # rest) = CHR ''|'' # rest"
    by (simp add: dropWhile_append3)
  then show ?thesis by (simp add: strchr_def plus1_def)
qed

subsection \<open>The round trip of the serializer\<close>

lemma snprintf99_fits: "length s \<le> 98 \<Longrightarrow> snprintf99 s = s"
  by (simp add: snprintf99_def)

lemma Kind_of_long_number:
  "inj kind_number \<Longrightarrow> Kind_of_long kind_number (uint (kind_number k)) = Some k"
  by (cases k) (simp_all add: Kind_of_long_def inj_eq)

lemma int_of_long_int: "- (2 ^ 31) \<le> i \<Longrightarrow> i < 2 ^ 31 \<Longrightarrow> int_of_long i = i"
  unfolding int_of_long_def by (simp add: sint_sbintrunc' signed_take_bit_int_eq_self)

lemma length_uint_text:
  "length (to_string (uint (b :: 8 word))) \<le> 3" "length (to_string (uint (r :: 16 word))) \<le> 5"
proof -
  have "uint b < 2 ^ 8" using uint_bounded [of b] by simp
  then have "uint b < 10 ^ 3" by simp
  then show "length (to_string (uint b)) \<le> 3"
    by (intro length_to_string_nonneg) simp_all
  have "uint r < 2 ^ 16" using uint_bounded [of r] by simp
  then have "uint r < 10 ^ 5" by simp
  then show "length (to_string (uint r)) \<le> 5"
    by (intro length_to_string_nonneg) simp_all
qed

lemma length_usr_text: "length (to_string_nat (unat (u :: 64 word))) \<le> 20"
proof -
  have "unat u < 2 ^ 64" using unsigned_less [of u, where 'a = nat] by simp
  then have "unat u < 10 ^ 20" by simp
  then show ?thesis by (intro length_to_string_nat) simp_all
qed

lemma length_file_id_text:
  assumes "- (2 ^ 31) \<le> i" and "i < 2 ^ 31"
  shows "length (to_string i) \<le> 11"
proof -
  from assms have "\<bar>i\<bar> < 10 ^ 10" by simp
  from length_to_string [OF this] show ?thesis by simp
qed

lemma strtol_uint:
  "no_digit_next rest \<Longrightarrow> strtol (to_string (uint (b :: 8 word)) @ rest) = (uint b, rest)"
  "no_digit_next rest \<Longrightarrow> strtol (to_string (uint (r :: 16 word)) @ rest) = (uint r, rest)"
proof -
  have lo: "- (2 ^ 63) \<le> uint b" by (rule order_trans [of _ 0]) simp_all
  have "uint b < 2 ^ 8" using uint_bounded [of b] by simp
  then have hi: "uint b < 2 ^ 63" by simp
  show "no_digit_next rest \<Longrightarrow> strtol (to_string (uint b) @ rest) = (uint b, rest)"
    by (rule strtol_to_string [OF lo hi])
  have lo: "- (2 ^ 63) \<le> uint r" by (rule order_trans [of _ 0]) simp_all
  have "uint r < 2 ^ 16" using uint_bounded [of r] by simp
  then have hi: "uint r < 2 ^ 63" by simp
  show "no_digit_next rest \<Longrightarrow> strtol (to_string (uint r) @ rest) = (uint r, rest)"
    by (rule strtol_to_string [OF lo hi])
qed

lemma strtol_file_id:
  "- (2 ^ 31) \<le> i \<Longrightarrow> i < 2 ^ 31 \<Longrightarrow> no_digit_next rest \<Longrightarrow>
     strtol (to_string i @ rest) = (i, rest)"
  by (intro strtol_to_string) simp_all

lemma strtoull_usr:
  "no_digit_next rest \<Longrightarrow>
     strtoull (to_string_nat (unat (u :: 64 word)) @ rest) = (unat u, rest)"
  using unsigned_less [of u, where 'a = nat] by (intro strtoull_to_string_nat) simp_all

lemma json_SymbolRef_round_trip:
  assumes ok: "range_text_ok toString fromString 67 (sym_range v)" and inj: "inj kind_number"
  shows "reflect_JsonReader_SymbolRef fromString kind_number
           (reflect_JsonWriter_SymbolRef toString kind_number v) = Some v"
proof -
  define R where "R = toString (sym_range v)"
  define U where "U = to_string_nat (unat (sym_usr v))"
  define K where "K = to_string (uint (kind_number (sym_kind v)))"
  define L where "L = to_string (uint (sym_role v))"
  define t where "t = R @ CHR ''|'' # U @ CHR ''|'' # K @ CHR ''|'' # L"
  from ok have bar: "CHR ''|'' \<notin> set R" and lenR: "length R \<le> 67"
    and rd: "\<And>rest. fromString (R @ CHR ''|'' # rest) = sym_range v"
    by (simp_all add: range_text_ok_def R_def)
  have len: "length U \<le> 20" "length K \<le> 3" "length L \<le> 5"
    by (simp_all add: U_def K_def L_def length_usr_text length_uint_text)
  with lenR have "length t \<le> 98" by (simp add: t_def)
  then have w: "reflect_JsonWriter_SymbolRef toString kind_number v = t"
    unfolding reflect_JsonWriter_SymbolRef_def R_def [symmetric] U_def [symmetric]
      K_def [symmetric] L_def [symmetric]
    by (simp add: snprintf99_fits t_def)
  have r: "fromString t = sym_range v" by (simp add: t_def rd)
  have s1: "Option.bind (strchr t (CHR ''|'')) plus1 = Some (U @ CHR ''|'' # K @ CHR ''|'' # L)"
    unfolding t_def by (rule strchr_bar [OF bar])
  have u: "strtoull (U @ CHR ''|'' # K @ CHR ''|'' # L) = (unat (sym_usr v), CHR ''|'' # K @ CHR ''|'' # L)"
    unfolding U_def by (rule strtoull_usr) simp
  have k: "strtol (K @ CHR ''|'' # L) = (uint (kind_number (sym_kind v)), CHR ''|'' # L)"
    unfolding K_def by (rule strtol_uint) simp
  have l: "strtol L = (uint (sym_role v), [])"
    using strtol_uint(2) [of "[]" "sym_role v"] by (simp add: L_def)
  show ?thesis
    unfolding w reflect_JsonReader_SymbolRef_def
    by (simp add: r s1 u k l plus1_def Kind_of_long_number [OF inj])
qed

lemma json_Use_round_trip:
  assumes ok: "range_text_ok toString fromString 80 (use_range v)"
    and lo: "- (2 ^ 31) \<le> file_id v" and hi: "file_id v < 2 ^ 31"
  shows "reflect_JsonReader_Use fromString (reflect_JsonWriter_Use toString v) = Some v"
proof -
  define R where "R = toString (use_range v)"
  define L where "L = to_string (uint (use_role v))"
  define F where "F = to_string (file_id v)"
  define t where "t = R @ CHR ''|'' # L @ CHR ''|'' # F"
  from ok have bar: "CHR ''|'' \<notin> set R" and lenR: "length R \<le> 80"
    and rd: "\<And>rest. fromString (R @ CHR ''|'' # rest) = use_range v"
    by (simp_all add: range_text_ok_def R_def)
  have len: "length L \<le> 5" "length F \<le> 11"
    by (simp_all add: L_def F_def length_uint_text length_file_id_text [OF lo hi])
  with lenR have "length t \<le> 98" by (simp add: t_def)
  then have w: "reflect_JsonWriter_Use toString v = t"
    unfolding reflect_JsonWriter_Use_def R_def [symmetric] L_def [symmetric] F_def [symmetric]
    by (simp add: snprintf99_fits t_def)
  have r: "fromString t = use_range v" by (simp add: t_def rd)
  have s1: "Option.bind (strchr t (CHR ''|'')) plus1 = Some (L @ CHR ''|'' # F)"
    unfolding t_def by (rule strchr_bar [OF bar])
  have l: "strtol (L @ CHR ''|'' # F) = (uint (use_role v), CHR ''|'' # F)"
    unfolding L_def by (rule strtol_uint) simp
  have f: "strtol F = (file_id v, [])"
    using strtol_file_id [OF lo hi, of "[]"] by (simp add: F_def)
  show ?thesis
    unfolding w reflect_JsonReader_Use_def
    by (simp add: r s1 l f plus1_def int_of_long_int [OF lo hi])
qed

lemma json_DeclRef_round_trip:
  assumes ok: "range_text_ok toString fromString 39 (use_range v)"
    and ok2: "range_text_ok toString fromString 39 (extent v)"
    and lo: "- (2 ^ 31) \<le> file_id v" and hi: "file_id v < 2 ^ 31"
  shows "reflect_JsonReader_DeclRef fromString (reflect_JsonWriter_DeclRef toString v) = Some v"
proof -
  define R where "R = toString (use_range v)"
  define E where "E = toString (extent v)"
  define L where "L = to_string (uint (use_role v))"
  define F where "F = to_string (file_id v)"
  define t where "t = R @ CHR ''|'' # E @ CHR ''|'' # L @ CHR ''|'' # F"
  from ok have bar: "CHR ''|'' \<notin> set R" and lenR: "length R \<le> 39"
    and rd: "\<And>rest. fromString (R @ CHR ''|'' # rest) = use_range v"
    by (simp_all add: range_text_ok_def R_def)
  from ok2 have bar2: "CHR ''|'' \<notin> set E" and lenE: "length E \<le> 39"
    and rd2: "\<And>rest. fromString (E @ CHR ''|'' # rest) = extent v"
    by (simp_all add: range_text_ok_def E_def)
  have len: "length L \<le> 5" "length F \<le> 11"
    by (simp_all add: L_def F_def length_uint_text length_file_id_text [OF lo hi])
  with lenR lenE have "length t \<le> 98" by (simp add: t_def)
  then have w: "reflect_JsonWriter_DeclRef toString v = t"
    unfolding reflect_JsonWriter_DeclRef_def R_def [symmetric] L_def [symmetric]
      F_def [symmetric] E_def [symmetric]
    by (simp add: snprintf99_fits t_def)
  have r: "fromString t = use_range v" by (simp add: t_def rd)
  have s0: "Option.bind (strchr t (CHR ''|'')) plus1 = Some (E @ CHR ''|'' # L @ CHR ''|'' # F)"
    unfolding t_def by (rule strchr_bar [OF bar])
  have e: "fromString (E @ CHR ''|'' # L @ CHR ''|'' # F) = extent v" by (rule rd2)
  have s1: "Option.bind (strchr (E @ CHR ''|'' # L @ CHR ''|'' # F) (CHR ''|'')) plus1
              = Some (L @ CHR ''|'' # F)"
    by (rule strchr_bar [OF bar2])
  have l: "strtol (L @ CHR ''|'' # F) = (uint (use_role v), CHR ''|'' # F)"
    unfolding L_def by (rule strtol_uint) simp
  have f: "strtol F = (file_id v, [])"
    using strtol_file_id [OF lo hi, of "[]"] by (simp add: F_def)
  show ?thesis
    unfolding w reflect_JsonReader_DeclRef_def
    by (simp add: r s0 e s1 l f plus1_def int_of_long_int [OF lo hi])
qed

lemma binary_SymbolRef_round_trip:
  assumes "field_ok (put_Range B) (get_Range B) (sym_range v)"
    and "field_ok (put_Usr B) (get_Usr B) (sym_usr v)"
    and "field_ok (put_Kind B) (get_Kind B) (sym_kind v)"
    and "field_ok (put_Role B) (get_Role B) (sym_role v)"
  shows "reflect_BinaryReader_SymbolRef B (reflect_BinaryWriter_SymbolRef B v @ rest)
           = Some (v, rest)"
  using assms
  by (simp add: field_ok_def reflect_BinaryReader_SymbolRef_def reflect_BinaryWriter_SymbolRef_def)

lemma binary_Use_round_trip:
  assumes "field_ok (put_Range B) (get_Range B) (use_range v)"
    and "field_ok (put_Role B) (get_Role B) (use_role v)"
    and "field_ok (put_int B) (get_int B) (file_id v)"
  shows "reflect_BinaryReader_Use B (reflect_BinaryWriter_Use B v @ rest)
           = Some (Use.truncate v, rest)"
  using assms
  by (simp add: field_ok_def reflect_BinaryReader_Use_def reflect_BinaryWriter_Use_def
      Use.truncate_def)

lemma binary_DeclRef_round_trip:
  assumes "field_ok (put_Range B) (get_Range B) (use_range v)"
    and "field_ok (put_Role B) (get_Role B) (use_role v)"
    and "field_ok (put_int B) (get_int B) (file_id v)"
    and "field_ok (put_Range B) (get_Range B) (extent v)"
  shows "reflect_BinaryReader_DeclRef B (reflect_BinaryWriter_DeclRef B v @ rest)
           = Some (v, rest)"
  using binary_Use_round_trip [OF assms(1-3), of "put_Range B (extent v) @ rest"] assms(4)
  by (simp add: field_ok_def reflect_BinaryReader_DeclRef_def reflect_BinaryWriter_DeclRef_def
      Use.truncate_def)

lemma example_range_text_ok:
  assumes "0 \<le> line (start r)" "line (start r) < 10000"
    and "0 \<le> column (start r)" "column (start r) < 10000"
    and "0 \<le> line (finish r)" "line (finish r) < 10000"
    and "0 \<le> column (finish r)" "column (finish r) < 10000"
  shows "range_text_ok example_toString example_fromString 39 r"
proof -
  have len: "length (to_string i) \<le> 4" if "0 \<le> i" "i < 10000" for i
    using length_to_string_nonneg [of i 4] that by simp
  have rd: "strtol (to_string i @ rest) = (i, rest)"
    if "0 \<le> i" "i < 10000" "no_digit_next rest" for i rest
    using that by (intro strtol_to_string) simp_all
  have nd: "no_digit_next (CHR '':'' # x)" "no_digit_next (CHR ''-'' # x)" for x
    by (simp_all add: no_digit_next_def isdigit_def)
  have 1: "CHR ''|'' \<notin> set (example_toString r)"
    by (simp add: example_toString_def bar_not_in_to_string)
  have 2: "length (example_toString r) \<le> 39"
    using len [OF assms(1,2)] len [OF assms(3,4)] len [OF assms(5,6)] len [OF assms(7,8)]
    by (simp add: example_toString_def)
  have 3: "example_fromString (example_toString r @ CHR ''|'' # rest) = r" for rest
    by (simp add: example_fromString_def example_toString_def
        rd [OF assms(1,2)] rd [OF assms(3,4)] rd [OF assms(5,6)] rd [OF assms(7,8)] nd)
  from 1 2 3 show ?thesis by (simp add: range_text_ok_def)
qed

lemma example_Range_text_ok:
  "0 \<le> l \<Longrightarrow> l < 10000 \<Longrightarrow> 0 \<le> c1 \<Longrightarrow> c1 < 10000 \<Longrightarrow> 0 \<le> c2 \<Longrightarrow> c2 < 10000 \<Longrightarrow> n \<ge> 39 \<Longrightarrow>
     range_text_ok example_toString example_fromString n (example_Range l c1 c2)"
  using example_range_text_ok [of "example_Range l c1 c2"]
  by (simp add: example_Range_def range_text_ok_def)

lemma inj_example_kind_number: "inj example_kind_number"
proof (rule injI)
  fix x y
  assume "example_kind_number x = example_kind_number y"
  then show "x = y"
    by (cases x; cases y; simp add: example_kind_number_def)
qed

lemma example_Binary_fields:
  "field_ok (put_Range example_Binary) (get_Range example_Binary) (example_Range 3 8 11)"
  "field_ok (put_Range example_Binary) (get_Range example_Binary) (example_Range 4 8 9)"
  "field_ok (put_Range example_Binary) (get_Range example_Binary) (example_Range 3 1 20)"
  "field_ok (put_Usr example_Binary) (get_Usr example_Binary) 6"
  "field_ok (put_Kind example_Binary) (get_Kind example_Binary) Type"
  "field_ok (put_Role example_Binary) (get_Role example_Binary) 1"
  "field_ok (put_Role example_Binary) (get_Role example_Binary) 2"
  "field_ok (put_Role example_Binary) (get_Role example_Binary) 4"
  "field_ok (put_int example_Binary) (get_int example_Binary) 0"
  "field_ok (put_int example_Binary) (get_int example_Binary) 1"
  by (simp_all add: field_ok_def example_Binary_def example_Range_def get_byte_def
      Kind_of_long_def example_kind_number_def)

text \<open>
  C1. A written record is read back as it was, in the textual form
  (\<^verbatim>\<open>range|usr|kind|role\<close> of a symbol reference, \<^verbatim>\<open>range|role|file\<close> of a use,
  \<^verbatim>\<open>range|extent|role|file\<close> of a declaration reference) and in the binary form (the
  fields one after the other, whatever follows them in the stream). The records this holds
  for are those whose parts outside this file are read back as written: the text of a
  range has no \<^verbatim>\<open>|\<close>, is read back whatever follows its \<^verbatim>\<open>|\<close>, and is short enough for
  the record to fit the buffer of 99 characters (67, 80, and 39 for each of the two
  ranges); the kinds have distinct numbers; the file index is an \<^verbatim>\<open>int\<close> of 32 bits; each
  field of the binary form is read back from the front of a stream.
\<close>

theorem reflect_round_trip:
  fixes s :: SymbolRef and u :: Use and d :: DeclRef
  shows
  "(range_text_ok toString fromString 67 (sym_range s) \<and> inj kind_number \<longrightarrow>
      reflect_JsonReader_SymbolRef fromString kind_number
        (reflect_JsonWriter_SymbolRef toString kind_number s) = Some s)
   \<and> (range_text_ok toString fromString 80 (use_range u)
        \<and> - (2 ^ 31) \<le> file_id u \<and> file_id u < 2 ^ 31 \<longrightarrow>
      reflect_JsonReader_Use fromString (reflect_JsonWriter_Use toString u) = Some u)
   \<and> (range_text_ok toString fromString 39 (use_range d)
        \<and> range_text_ok toString fromString 39 (extent d)
        \<and> - (2 ^ 31) \<le> file_id d \<and> file_id d < 2 ^ 31 \<longrightarrow>
      reflect_JsonReader_DeclRef fromString (reflect_JsonWriter_DeclRef toString d) = Some d)
   \<and> (field_ok (put_Range B) (get_Range B) (sym_range s)
        \<and> field_ok (put_Usr B) (get_Usr B) (sym_usr s)
        \<and> field_ok (put_Kind B) (get_Kind B) (sym_kind s)
        \<and> field_ok (put_Role B) (get_Role B) (sym_role s) \<longrightarrow>
      reflect_BinaryReader_SymbolRef B (reflect_BinaryWriter_SymbolRef B s @ rest)
        = Some (s, rest))
   \<and> (field_ok (put_Range B) (get_Range B) (use_range u)
        \<and> field_ok (put_Role B) (get_Role B) (use_role u)
        \<and> field_ok (put_int B) (get_int B) (file_id u) \<longrightarrow>
      reflect_BinaryReader_Use B (reflect_BinaryWriter_Use B u @ rest) = Some (u, rest))
   \<and> (field_ok (put_Range B) (get_Range B) (use_range d)
        \<and> field_ok (put_Role B) (get_Role B) (use_role d)
        \<and> field_ok (put_int B) (get_int B) (file_id d)
        \<and> field_ok (put_Range B) (get_Range B) (extent d) \<longrightarrow>
      reflect_BinaryReader_DeclRef B (reflect_BinaryWriter_DeclRef B d @ rest)
        = Some (d, rest))"
proof (intro conjI impI)
  assume "range_text_ok toString fromString 67 (sym_range s) \<and> inj kind_number"
  then show "reflect_JsonReader_SymbolRef fromString kind_number
        (reflect_JsonWriter_SymbolRef toString kind_number s) = Some s"
    by (simp add: json_SymbolRef_round_trip)
next
  assume "range_text_ok toString fromString 80 (use_range u)
        \<and> - (2 ^ 31) \<le> file_id u \<and> file_id u < 2 ^ 31"
  then show "reflect_JsonReader_Use fromString (reflect_JsonWriter_Use toString u) = Some u"
    by (intro json_Use_round_trip) simp_all
next
  assume "range_text_ok toString fromString 39 (use_range d)
        \<and> range_text_ok toString fromString 39 (extent d)
        \<and> - (2 ^ 31) \<le> file_id d \<and> file_id d < 2 ^ 31"
  then show "reflect_JsonReader_DeclRef fromString (reflect_JsonWriter_DeclRef toString d) = Some d"
    by (intro json_DeclRef_round_trip) simp_all
next
  assume "field_ok (put_Range B) (get_Range B) (sym_range s)
        \<and> field_ok (put_Usr B) (get_Usr B) (sym_usr s)
        \<and> field_ok (put_Kind B) (get_Kind B) (sym_kind s)
        \<and> field_ok (put_Role B) (get_Role B) (sym_role s)"
  then show "reflect_BinaryReader_SymbolRef B (reflect_BinaryWriter_SymbolRef B s @ rest)
        = Some (s, rest)"
    by (intro binary_SymbolRef_round_trip) simp_all
next
  assume "field_ok (put_Range B) (get_Range B) (use_range u)
        \<and> field_ok (put_Role B) (get_Role B) (use_role u)
        \<and> field_ok (put_int B) (get_int B) (file_id u)"
  then have "reflect_BinaryReader_Use B (reflect_BinaryWriter_Use B u @ rest)
      = Some (Use.truncate u, rest)"
    by (intro binary_Use_round_trip) simp_all
  then show "reflect_BinaryReader_Use B (reflect_BinaryWriter_Use B u @ rest) = Some (u, rest)"
    by (simp add: Use.truncate_def)
next
  assume "field_ok (put_Range B) (get_Range B) (use_range d)
        \<and> field_ok (put_Role B) (get_Role B) (use_role d)
        \<and> field_ok (put_int B) (get_int B) (file_id d)
        \<and> field_ok (put_Range B) (get_Range B) (extent d)"
  then show "reflect_BinaryReader_DeclRef B (reflect_BinaryWriter_DeclRef B d @ rest)
        = Some (d, rest)"
    by (intro binary_DeclRef_round_trip) simp_all
qed

theorem reflect_round_trip_witness:
  "reflect_JsonReader_SymbolRef example_fromString example_kind_number
     (reflect_JsonWriter_SymbolRef example_toString example_kind_number example_SymbolRef)
     = Some example_SymbolRef
   \<and> reflect_JsonReader_Use example_fromString
       (reflect_JsonWriter_Use example_toString example_Use) = Some example_Use
   \<and> reflect_JsonReader_DeclRef example_fromString
       (reflect_JsonWriter_DeclRef example_toString example_DeclRef) = Some example_DeclRef
   \<and> reflect_BinaryReader_SymbolRef example_Binary
       (reflect_BinaryWriter_SymbolRef example_Binary example_SymbolRef @ [7])
       = Some (example_SymbolRef, [7])
   \<and> reflect_BinaryReader_Use example_Binary
       (reflect_BinaryWriter_Use example_Binary example_Use @ [7]) = Some (example_Use, [7])
   \<and> reflect_BinaryReader_DeclRef example_Binary
       (reflect_BinaryWriter_DeclRef example_Binary example_DeclRef @ [7])
       = Some (example_DeclRef, [7])
   \<and> reflect_JsonWriter_DeclRef example_toString example_DeclRef = ''3:8-3:11|3:1-3:20|1|0''"
proof -
  note t = reflect_round_trip [of example_toString example_fromString example_SymbolRef
      example_kind_number example_Use example_DeclRef example_Binary "[7]"]
  have h: "range_text_ok example_toString example_fromString 67 (sym_range example_SymbolRef)"
    "range_text_ok example_toString example_fromString 80 (use_range example_Use)"
    "range_text_ok example_toString example_fromString 39 (use_range example_DeclRef)"
    "range_text_ok example_toString example_fromString 39 (extent example_DeclRef)"
    by (simp_all add: example_SymbolRef_def example_Use_def example_DeclRef_def
        example_Range_text_ok)
  have f: "file_id example_Use = 1" "file_id example_DeclRef = 0"
    by (simp_all add: example_Use_def example_DeclRef_def)
  have b: "field_ok (put_Range example_Binary) (get_Range example_Binary) (sym_range example_SymbolRef)"
    "field_ok (put_Usr example_Binary) (get_Usr example_Binary) (sym_usr example_SymbolRef)"
    "field_ok (put_Kind example_Binary) (get_Kind example_Binary) (sym_kind example_SymbolRef)"
    "field_ok (put_Role example_Binary) (get_Role example_Binary) (sym_role example_SymbolRef)"
    "field_ok (put_Range example_Binary) (get_Range example_Binary) (use_range example_Use)"
    "field_ok (put_Role example_Binary) (get_Role example_Binary) (use_role example_Use)"
    "field_ok (put_int example_Binary) (get_int example_Binary) (file_id example_Use)"
    "field_ok (put_Range example_Binary) (get_Range example_Binary) (use_range example_DeclRef)"
    "field_ok (put_Role example_Binary) (get_Role example_Binary) (use_role example_DeclRef)"
    "field_ok (put_int example_Binary) (get_int example_Binary) (file_id example_DeclRef)"
    "field_ok (put_Range example_Binary) (get_Range example_Binary) (extent example_DeclRef)"
    by (simp_all add: example_SymbolRef_def example_Use_def example_DeclRef_def
        example_Binary_fields)
  have w: "reflect_JsonWriter_DeclRef example_toString example_DeclRef = ''3:8-3:11|3:1-3:20|1|0''"
    by (simp add: reflect_JsonWriter_DeclRef_def example_toString_def example_DeclRef_def
        example_Range_def snprintf99_def to_string_def to_string_nat.simps decimal_digit_def
        char_of_def bit_0)
  from t h f b w inj_example_kind_number show ?thesis by simp
qed

end
